theory Spec2Isabelle
  imports Complex_Main "HOL-Library.Sublist"
begin

section \<open>Python text primitives\<close>

text \<open>
  A Python \<open>str\<close> is modelled as a \<open>string\<close>: each \<open>char\<close> is one code point below 256.
  Whitespace, the control ranges, the word characters and \<open>lower()\<close> are those of Python
  for these code points. The upper case of three letters (U+00B5, U+00DF, U+00FF) is not
  a single code point below 256; \<open>upper_char\<close> leaves them as they are, and a statement
  about capitalized text is made for strings without them (\<open>cased\<close>).
  Missing values (\<open>NaN\<close>, \<open>None\<close>) are never strings: a value that may be missing is an
  option or a \<open>cell\<close>.
\<close>

text \<open>\<open>str.isspace\<close> on one code point; also what \<open>\s\<close> matches and what \<open>strip()\<close> removes.\<close>

definition whitespace :: string where
  "whitespace =
     [CHR 0x09, CHR 0x0A, CHR 0x0B, CHR 0x0C, CHR 0x0D, CHR 0x1C, CHR 0x1D, CHR 0x1E, CHR 0x1F,
      CHR '' '', CHR 0x85, CHR 0xA0]"

definition is_space :: "char \<Rightarrow> bool" where
  "is_space c = (c \<in> set whitespace)"

text \<open>The character class \<open>[\x00-\x1f\x7f-\x9f]\<close>.\<close>

definition is_control :: "char \<Rightarrow> bool" where
  "is_control c = ((of_char c :: nat) \<le> 31 \<or> (127 \<le> (of_char c :: nat) \<and> (of_char c :: nat) \<le> 159))"

text \<open>
  The letters that have an upper and a lower case below 256, in corresponding order: the
  ASCII letters and the letters U+00C0 to U+00DE (without the multiplication sign) with
  their lower case U+00E0 to U+00FE (without the division sign).
\<close>

definition upper_letters :: string where
  "upper_letters =
     ''ABCDEFGHIJKLMNOPQRSTUVWXYZ''
     @ [CHR 0xC0, CHR 0xC1, CHR 0xC2, CHR 0xC3, CHR 0xC4, CHR 0xC5, CHR 0xC6, CHR 0xC7,
        CHR 0xC8, CHR 0xC9, CHR 0xCA, CHR 0xCB, CHR 0xCC, CHR 0xCD, CHR 0xCE, CHR 0xCF,
        CHR 0xD0, CHR 0xD1, CHR 0xD2, CHR 0xD3, CHR 0xD4, CHR 0xD5, CHR 0xD6, CHR 0xD8,
        CHR 0xD9, CHR 0xDA, CHR 0xDB, CHR 0xDC, CHR 0xDD, CHR 0xDE]"

definition lower_letters :: string where
  "lower_letters =
     ''abcdefghijklmnopqrstuvwxyz''
     @ [CHR 0xE0, CHR 0xE1, CHR 0xE2, CHR 0xE3, CHR 0xE4, CHR 0xE5, CHR 0xE6, CHR 0xE7,
        CHR 0xE8, CHR 0xE9, CHR 0xEA, CHR 0xEB, CHR 0xEC, CHR 0xED, CHR 0xEE, CHR 0xEF,
        CHR 0xF0, CHR 0xF1, CHR 0xF2, CHR 0xF3, CHR 0xF4, CHR 0xF5, CHR 0xF6, CHR 0xF8,
        CHR 0xF9, CHR 0xFA, CHR 0xFB, CHR 0xFC, CHR 0xFD, CHR 0xFE]"

text \<open>
  The other letters (the two ordinal indicators, the micro sign, the sharp s and the y with
  diaeresis), the digits, and the other numeric characters (superscripts and fractions).
\<close>

definition other_letters :: string where
  "other_letters = [CHR 0xAA, CHR 0xBA, CHR 0xB5, CHR 0xDF, CHR 0xFF]"

definition digits :: string where
  "digits = ''0123456789''"

definition other_numerics :: string where
  "other_numerics = [CHR 0xB2, CHR 0xB3, CHR 0xB9, CHR 0xBC, CHR 0xBD, CHR 0xBE]"

text \<open>What \<open>\w\<close> matches: letters, digits, other numeric characters and the underscore.\<close>

definition is_word :: "char \<Rightarrow> bool" where
  "is_word c =
     (c \<in> set (lower_letters @ upper_letters @ digits @ ''_'' @ other_letters @ other_numerics))"

definition lower_char :: "char \<Rightarrow> char" where
  "lower_char c = (case map_of (zip upper_letters lower_letters) c of Some l \<Rightarrow> l | None \<Rightarrow> c)"

definition upper_char :: "char \<Rightarrow> char" where
  "upper_char c = (case map_of (zip lower_letters upper_letters) c of Some u \<Rightarrow> u | None \<Rightarrow> c)"

text \<open>The strings without the three letters whose upper case is not modelled.\<close>

definition cased :: "string \<Rightarrow> bool" where
  "cased s = (\<forall>c \<in> set s. c \<notin> set [CHR 0xB5, CHR 0xDF, CHR 0xFF])"

definition lower :: "string \<Rightarrow> string" where
  "lower s = map lower_char s"

text \<open>\<open>str.strip()\<close>: whitespace removed at both ends.\<close>

definition lstrip :: "string \<Rightarrow> string" where
  "lstrip s = dropWhile is_space s"

definition rstrip :: "string \<Rightarrow> string" where
  "rstrip s = rev (dropWhile is_space (rev s))"

definition strip :: "string \<Rightarrow> string" where
  "strip s = rstrip (lstrip s)"

text \<open>\<open>re.sub(r'\s+', ' ', s)\<close>: every maximal run of whitespace becomes one blank.\<close>

function collapse_ws :: "string \<Rightarrow> string" where
  "collapse_ws [] = []"
| "collapse_ws (c # s) =
     (if is_space c then CHR '' '' # collapse_ws (dropWhile is_space s)
      else c # collapse_ws s)"
  by pat_completeness auto
termination
  by (relation "measure length") (auto simp: less_Suc_eq_le length_dropWhile_le)

text \<open>\<open>str.split()\<close> without argument: the maximal runs of non-whitespace.\<close>

function split_ws :: "string \<Rightarrow> string list" where
  "split_ws [] = []"
| "split_ws (c # s) =
     (if is_space c then split_ws (dropWhile is_space s)
      else (c # takeWhile (\<lambda>x. \<not> is_space x) s) # split_ws (dropWhile (\<lambda>x. \<not> is_space x) s))"
  by pat_completeness auto
termination
  by (relation "measure length") (auto simp: less_Suc_eq_le length_dropWhile_le)

text \<open>\<open>sep.join(xs)\<close>.\<close>

fun join :: "string \<Rightarrow> string list \<Rightarrow> string" where
  "join sep [] = []"
| "join sep [x] = x"
| "join sep (x # y # xs) = x @ sep @ join sep (y # xs)"

text \<open>\<open>str.capitalize()\<close>: first character upper case, the rest lower case.\<close>

fun capitalize :: "string \<Rightarrow> string" where
  "capitalize [] = []"
| "capitalize (c # s) = upper_char c # lower s"

text \<open>\<open>sub in s\<close> for strings.\<close>

definition contains :: "string \<Rightarrow> string \<Rightarrow> bool" where
  "contains sub s = (\<exists>i \<in> set [0..<Suc (length s)]. take (length sub) (drop i s) = sub)"

section \<open>Organism normalizer\<close>

subsection \<open>The regular expressions of the pattern list\<close>

text \<open>
  Every pattern of \<open>organism_patterns\<close> has the shape \<open>\b(a1|a2|a3)\b\<close>, where an alternative
  is a sequence of literals, \<open>\s+\<close> and \<open>\s*\<close>. A pattern is the list of its alternatives;
  the two word boundaries are part of \<open>match_at\<close>.
\<close>

datatype atom = Lit string | Spaces1 | Spaces0

type_synonym pattern = "atom list list"

text \<open>
  The matcher reads the text from left to right and carries the character read last
  (\<open>None\<close> at the start of the text), which \<open>\b\<close> needs.

  \<open>\b\<close> between the character \<open>prev\<close> read last and the text \<open>rest\<close> still to read.
\<close>

definition boundary :: "char option \<Rightarrow> string \<Rightarrow> bool" where
  "boundary prev rest =
     ((case prev of None \<Rightarrow> False | Some c \<Rightarrow> is_word c)
        \<noteq> (case rest of [] \<Rightarrow> False | c # _ \<Rightarrow> is_word c))"

text \<open>A literal at the start of the text, compared case-insensitively (\<open>re.IGNORECASE\<close>).\<close>

fun match_lit :: "string \<Rightarrow> char option \<Rightarrow> string \<Rightarrow> (char option \<times> string) option" where
  "match_lit [] prev s = Some (prev, s)"
| "match_lit (l # ls) prev [] = None"
| "match_lit (l # ls) prev (c # s) =
     (if lower_char c = lower_char l then match_lit ls (Some c) s else None)"

text \<open>Every way of consuming whitespace from the start of the text, the longest run first.\<close>

fun ws_rests :: "char option \<Rightarrow> string \<Rightarrow> (char option \<times> string) list" where
  "ws_rests prev [] = [(prev, [])]"
| "ws_rests prev (c # s) =
     (if is_space c then ws_rests (Some c) s @ [(prev, c # s)] else [(prev, c # s)])"

text \<open>
  All the ways an alternative matches at the start of the text, each given by the last
  character read and the text left after the match.
\<close>

fun match_atoms :: "atom list \<Rightarrow> char option \<Rightarrow> string \<Rightarrow> (char option \<times> string) list" where
  "match_atoms [] prev s = [(prev, s)]"
| "match_atoms (Lit l # as) prev s =
     (case match_lit l prev s of
        None \<Rightarrow> []
      | Some (prev', s') \<Rightarrow> match_atoms as prev' s')"
| "match_atoms (Spaces1 # as) prev s =
     concat (map (\<lambda>(prev', s'). match_atoms as prev' s') (butlast (ws_rests prev s)))"
| "match_atoms (Spaces0 # as) prev s =
     concat (map (\<lambda>(prev', s'). match_atoms as prev' s') (ws_rests prev s))"

text \<open>The pattern \<open>\b(a1|a2|...)\b\<close> matched at one position.\<close>

definition match_at :: "pattern \<Rightarrow> char option \<Rightarrow> string \<Rightarrow> bool" where
  "match_at alts prev rest =
     (if boundary prev rest
      then list_ex (\<lambda>alt. list_ex (\<lambda>(prev', rest'). boundary prev' rest') (match_atoms alt prev rest)) alts
      else False)"

text \<open>The positions of the text from left to right, as \<open>re.search\<close> tries them.\<close>

fun search_from :: "pattern \<Rightarrow> char option \<Rightarrow> string \<Rightarrow> bool" where
  "search_from p prev [] = match_at p prev []"
| "search_from p prev (c # s) =
     (if match_at p prev (c # s) then True else search_from p (Some c) s)"

text \<open>The truth value of \<open>re.search(pattern, s, re.IGNORECASE)\<close>: a match at some position.\<close>

definition re_search :: "pattern \<Rightarrow> string \<Rightarrow> bool" where
  "re_search p s = search_from p None s"

text \<open>The character read last once the text \<open>m\<close> has been read after \<open>prev\<close>.\<close>

definition last_read :: "char option \<Rightarrow> string \<Rightarrow> char option" where
  "last_read prev m = (if m = [] then prev else Some (last m))"

subsection \<open>The meaning of a pattern\<close>

text \<open>
  What the regular expressions mean, stated on the matched text rather than by a matcher.
  \<open>alt_matches alt m\<close>: the alternative \<open>alt\<close> matches exactly the text \<open>m\<close>. A literal matches
  a text of its length that equals it up to case; \<open>\s+\<close> and \<open>\s*\<close> match a run of whitespace.
\<close>

fun alt_matches :: "atom list \<Rightarrow> string \<Rightarrow> bool" where
  "alt_matches [] m = (m = [])"
| "alt_matches (Lit l # as) m =
     (length l \<le> length m \<and> lower (take (length l) m) = lower l
      \<and> alt_matches as (drop (length l) m))"
| "alt_matches (Spaces1 # as) m =
     (\<exists>k. 1 \<le> k \<and> k \<le> length m \<and> (\<forall>c \<in> set (take k m). is_space c)
          \<and> alt_matches as (drop k m))"
| "alt_matches (Spaces0 # as) m =
     (\<exists>k. k \<le> length m \<and> (\<forall>c \<in> set (take k m). is_space c) \<and> alt_matches as (drop k m))"

text \<open>A word character ends the text \<open>left\<close>, or starts the text \<open>right\<close>.\<close>

definition word_end :: "string \<Rightarrow> bool" where
  "word_end left = (left \<noteq> [] \<and> is_word (last left))"

definition word_start :: "string \<Rightarrow> bool" where
  "word_start right = (right \<noteq> [] \<and> is_word (hd right))"

text \<open>
  \<open>\b(a1|a2|...)\b\<close> is found in \<open>s\<close>: \<open>s\<close> has a part \<open>m\<close> that one alternative matches, with a
  word boundary before it and a word boundary after it.
\<close>

definition pattern_found :: "pattern \<Rightarrow> string \<Rightarrow> bool" where
  "pattern_found alts s =
     (\<exists>left m right.
        s = left @ m @ right
        \<and> (\<exists>alt \<in> set alts. alt_matches alt m)
        \<and> word_end left \<noteq> word_start (m @ right)
        \<and> word_end (left @ m) \<noteq> word_start right)"

subsection \<open>The normalizer object\<close>

text \<open>
  A Python \<open>dict\<close> with string keys is an association list in insertion order with
  distinct keys; \<open>d[k] = v\<close> overwrites in place or appends.
\<close>

fun dict_set :: "'k \<Rightarrow> 'v \<Rightarrow> ('k \<times> 'v) list \<Rightarrow> ('k \<times> 'v) list" where
  "dict_set k v [] = [(k, v)]"
| "dict_set k v ((k', v') # d) = (if k' = k then (k, v) # d else (k', v') # dict_set k v d)"

record normalizer =
  organism_mappings :: "(string \<times> string) list"
  organism_patterns :: "(pattern \<times> string) list"

definition seeded_mappings :: "(string \<times> string) list" where
  "seeded_mappings =
    [(''human'', ''Homo sapiens''),
     (''h. sapiens'', ''Homo sapiens''),
     (''homo sapiens'', ''Homo sapiens''),
     (''h.sapiens'', ''Homo sapiens''),
     (''homo_sapiens'', ''Homo sapiens''),
     (''hsa'', ''Homo sapiens''),
     (''hsapiens'', ''Homo sapiens''),
     (''mouse'', ''Mus musculus''),
     (''m. musculus'', ''Mus musculus''),
     (''mus musculus'', ''Mus musculus''),
     (''m.musculus'', ''Mus musculus''),
     (''mus_musculus'', ''Mus musculus''),
     (''mmu'', ''Mus musculus''),
     (''mmusculus'', ''Mus musculus''),
     (''rat'', ''Rattus norvegicus''),
     (''r. norvegicus'', ''Rattus norvegicus''),
     (''rattus norvegicus'', ''Rattus norvegicus''),
     (''r.norvegicus'', ''Rattus norvegicus''),
     (''rattus_norvegicus'', ''Rattus norvegicus''),
     (''rno'', ''Rattus norvegicus''),
     (''rnorvegicus'', ''Rattus norvegicus''),
     (''zebrafish'', ''Danio rerio''),
     (''d. rerio'', ''Danio rerio''),
     (''danio rerio'', ''Danio rerio''),
     (''d.rerio'', ''Danio rerio''),
     (''danio_rerio'', ''Danio rerio''),
     (''dre'', ''Danio rerio''),
     (''drerio'', ''Danio rerio''),
     (''fruit fly'', ''Drosophila melanogaster''),
     (''fruitfly'', ''Drosophila melanogaster''),
     (''d. melanogaster'', ''Drosophila melanogaster''),
     (''drosophila melanogaster'', ''Drosophila melanogaster''),
     (''d.melanogaster'', ''Drosophila melanogaster''),
     (''drosophila_melanogaster'', ''Drosophila melanogaster''),
     (''dme'', ''Drosophila melanogaster''),
     (''dmelanogaster'', ''Drosophila melanogaster''),
     (''c. elegans'', ''Caenorhabditis elegans''),
     (''caenorhabditis elegans'', ''Caenorhabditis elegans''),
     (''c.elegans'', ''Caenorhabditis elegans''),
     (''caenorhabditis_elegans'', ''Caenorhabditis elegans''),
     (''cel'', ''Caenorhabditis elegans''),
     (''celegans'', ''Caenorhabditis elegans''),
     (''worm'', ''Caenorhabditis elegans''),
     (''yeast'', ''Saccharomyces cerevisiae''),
     (''s. cerevisiae'', ''Saccharomyces cerevisiae''),
     (''saccharomyces cerevisiae'', ''Saccharomyces cerevisiae''),
     (''s.cerevisiae'', ''Saccharomyces cerevisiae''),
     (''saccharomyces_cerevisiae'', ''Saccharomyces cerevisiae''),
     (''sce'', ''Saccharomyces cerevisiae''),
     (''scerevisiae'', ''Saccharomyces cerevisiae''),
     (''arabidopsis'', ''Arabidopsis thaliana''),
     (''a. thaliana'', ''Arabidopsis thaliana''),
     (''arabidopsis thaliana'', ''Arabidopsis thaliana''),
     (''a.thaliana'', ''Arabidopsis thaliana''),
     (''arabidopsis_thaliana'', ''Arabidopsis thaliana''),
     (''ath'', ''Arabidopsis thaliana''),
     (''athaliana'', ''Arabidopsis thaliana'')]"

text \<open>
  \<open>binomial g i s c\<close> is the pattern \<open>\b(g\s+s|i\.\s*s|c)\b\<close>, the shape of seven of the
  eight seeded patterns; the fruit fly pattern has \<open>fruit\s*fly\<close> as third alternative.
\<close>

definition binomial :: "string \<Rightarrow> string \<Rightarrow> string \<Rightarrow> atom list \<Rightarrow> pattern" where
  "binomial genus initial species common =
     [[Lit genus, Spaces1, Lit species], [Lit initial, Lit ''.'', Spaces0, Lit species], common]"

definition seeded_patterns :: "(pattern \<times> string) list" where
  "seeded_patterns =
    [(binomial ''homo'' ''h'' ''sapiens'' [Lit ''human''], ''Homo sapiens''),
     (binomial ''mus'' ''m'' ''musculus'' [Lit ''mouse''], ''Mus musculus''),
     (binomial ''rattus'' ''r'' ''norvegicus'' [Lit ''rat''], ''Rattus norvegicus''),
     (binomial ''danio'' ''d'' ''rerio'' [Lit ''zebrafish''], ''Danio rerio''),
     (binomial ''drosophila'' ''d'' ''melanogaster'' [Lit ''fruit'', Spaces0, Lit ''fly''],
        ''Drosophila melanogaster''),
     (binomial ''caenorhabditis'' ''c'' ''elegans'' [Lit ''worm''], ''Caenorhabditis elegans''),
     (binomial ''saccharomyces'' ''s'' ''cerevisiae'' [Lit ''yeast''],
        ''Saccharomyces cerevisiae''),
     (binomial ''arabidopsis'' ''a'' ''thaliana'' [Lit ''arabidopsis''], ''Arabidopsis thaliana'')]"

text \<open>\<open>OrganismNormalizer.__init__\<close>.\<close>

definition init_normalizer :: normalizer where
  "init_normalizer =
     \<lparr>organism_mappings = seeded_mappings, organism_patterns = seeded_patterns\<rparr>"

text \<open>\<open>add_custom_mapping\<close>.\<close>

definition add_custom_mapping :: "normalizer \<Rightarrow> string \<Rightarrow> string \<Rightarrow> normalizer" where
  "add_custom_mapping nz from_name to_name =
     nz\<lparr>organism_mappings := dict_set (strip (lower from_name)) to_name (organism_mappings nz)\<rparr>"

subsection \<open>Normalizing one name\<close>

definition particles :: "string list" where
  "particles = [''sp.'', ''var.'', ''subsp.'', ''cf.'']"

text \<open>The loop of \<open>_capitalize_organism_name\<close> over \<open>enumerate(words)\<close>, from index \<open>i\<close>.\<close>

fun capitalized_words :: "nat \<Rightarrow> string list \<Rightarrow> string list" where
  "capitalized_words i [] = []"
| "capitalized_words i (word # words) =
     (if i = 0 \<or> lower word \<notin> set particles then capitalize word else lower word)
       # capitalized_words (Suc i) words"

text \<open>\<open>_capitalize_organism_name\<close>; \<open>None\<close> is a missing value.\<close>

definition capitalize_organism_name :: "string option \<Rightarrow> string option" where
  "capitalize_organism_name organism =
     (case organism of
        None \<Rightarrow> None
      | Some s \<Rightarrow>
          if s = [] then Some []
          else Some (join '' '' (capitalized_words 0 (split_ws (strip s)))))"

text \<open>
  The value of the local \<open>organism_clean\<close>: trimmed and lowercased, whitespace runs
  collapsed, every character other than a word character, whitespace or a period replaced
  by a blank, trimmed again.
\<close>

definition organism_clean :: "string \<Rightarrow> string" where
  "organism_clean s =
     strip (map (\<lambda>c. if is_word c \<or> is_space c \<or> c = CHR ''.'' then c else CHR '' '')
              (collapse_ws (lower (strip s))))"

text \<open>The loop over \<open>organism_patterns\<close>: the name of the first pattern found in \<open>s\<close>.\<close>

fun first_pattern :: "(pattern \<times> string) list \<Rightarrow> string \<Rightarrow> string option" where
  "first_pattern [] s = None"
| "first_pattern ((p, normalized_name) # ps) s =
     (if re_search p s then Some normalized_name else first_pattern ps s)"

text \<open>\<open>normalize_organism_name\<close>.\<close>

definition normalize_organism_name :: "normalizer \<Rightarrow> string option \<Rightarrow> string option" where
  "normalize_organism_name nz organism =
     (case organism of
        None \<Rightarrow> None
      | Some s \<Rightarrow>
          if s = [] then Some []
          else
            (case map_of (organism_mappings nz) (organism_clean s) of
               Some canonical \<Rightarrow> Some canonical
             | None \<Rightarrow>
                 (case first_pattern (organism_patterns nz) (organism_clean s) of
                    Some normalized_name \<Rightarrow> Some normalized_name
                  | None \<Rightarrow> capitalize_organism_name (Some s))))"

text \<open>
  The fallback as the specification words it: every whitespace-separated token of the
  input title-cased, except that a token which is one of the particles (compared in lower
  case) and is not the first token is written in lower case; tokens joined by one blank.
\<close>

definition spec_title_case :: "string \<Rightarrow> string" where
  "spec_title_case s =
     join '' ''
       (case split_ws s of
          [] \<Rightarrow> []
        | first # others \<Rightarrow>
            capitalize first
              # map (\<lambda>w. if lower w \<in> set particles then lower w else capitalize w) others)"


section \<open>Data frames\<close>

text \<open>
  A cell of a metadata table is a text or the missing marker (\<open>NaN\<close>, \<open>None\<close>). A table is
  a data frame with the default row index: its column labels in order and its rows in
  order, every row holding one cell per column.
\<close>

datatype cell = Missing | Text string

record table =
  columns :: "string list"
  rows :: "cell list list"

definition rectangular :: "table \<Rightarrow> bool" where
  "rectangular df = (\<forall>r \<in> set (rows df). length r = length (columns df))"

datatype py_error = AttributeError | IndexError | KeyError | ValueError | UnknownObject
  | UnsupportedFormat

text \<open>The cells of the column at position \<open>j\<close>, and \<open>df[col] = df[col].apply(f)\<close> for it.\<close>

definition column :: "table \<Rightarrow> nat \<Rightarrow> cell list" where
  "column df j = map (\<lambda>r. r ! j) (rows df)"

definition map_column :: "(cell \<Rightarrow> cell) \<Rightarrow> nat \<Rightarrow> table \<Rightarrow> table" where
  "map_column f j df = df\<lparr>rows := map (\<lambda>r. r[j := f (r ! j)]) (rows df)\<rparr>"

text \<open>
  \<open>dtype == 'object'\<close>: a column that holds a text has the object dtype. A column of
  missing markers only has dtype \<open>float64\<close> or \<open>object\<close> depending on how the frame was
  built; it is taken as not object here, which changes no result, since the operations
  guarded by the dtype leave missing markers as they are (\<open>handle_missing_values_cells\<close>,
  \<open>clean_text_columns_cells\<close>).
\<close>

definition dtype_object :: "cell list \<Rightarrow> bool" where
  "dtype_object cs = list_ex (\<lambda>c. c \<noteq> Missing) cs"

text \<open>\<open>isnull()\<close> on one cell, \<open>dropna(how='all')\<close> and \<open>drop_duplicates()\<close> on the rows.\<close>

definition isnull :: "cell \<Rightarrow> bool" where
  "isnull c = (c = Missing)"

definition dropna_all :: "table \<Rightarrow> table" where
  "dropna_all df = df\<lparr>rows := filter (\<lambda>r. list_ex (\<lambda>c. \<not> isnull c) r) (rows df)\<rparr>"

text \<open>Of equal rows the first is kept: the row order is that of the first occurrences.\<close>

definition drop_duplicates :: "table \<Rightarrow> table" where
  "drop_duplicates df = df\<lparr>rows := rev (remdups (rev (rows df)))\<rparr>"

text \<open>\<open>DataFrame.empty\<close>: no rows or no columns.\<close>

definition empty_frame :: "table \<Rightarrow> bool" where
  "empty_frame df = (rows df = [] \<or> columns df = [])"

section \<open>Data processor: cleaning\<close>

definition missing_indicators :: "string list" where
  "missing_indicators =
     [[], ''null'', ''NULL'', ''na'', ''NA'', ''n/a'', ''N/A'', ''none'', ''None'', ''NONE'',
      ''missing'', ''Missing'', ''MISSING'', ''-'', ''--'', ''---'', ''undefined'',
      ''Undefined'', ''UNDEFINED'', ''unknown'', ''Unknown'', ''UNKNOWN'']"

text \<open>\<open>replace(self.missing_indicators, np.nan)\<close> on one cell.\<close>

definition replace_missing :: "cell \<Rightarrow> cell" where
  "replace_missing c =
     (case c of
        Missing \<Rightarrow> Missing
      | Text s \<Rightarrow> if s \<in> set missing_indicators then Missing else Text s)"

text \<open>
  \<open>_handle_missing_values\<close>. With a column label that occurs twice, \<open>df[col]\<close> is a frame,
  which has no \<open>dtype\<close>: the loop raises \<open>AttributeError\<close>.
\<close>

definition handle_missing_values :: "table \<Rightarrow> py_error + table" where
  "handle_missing_values df =
     (if distinct (columns df)
      then Inr (fold (\<lambda>j d. if dtype_object (column d j) then map_column replace_missing j d else d)
                  [0..<length (columns df)] df)
      else Inl AttributeError)"

text \<open>\<open>_clean_text_field\<close>.\<close>

definition clean_text_field :: "cell \<Rightarrow> cell" where
  "clean_text_field c =
     (case c of
        Missing \<Rightarrow> Missing
      | Text s \<Rightarrow> Text (filter (\<lambda>x. \<not> is_control x) (collapse_ws (strip s))))"

text \<open>\<open>str.replace(a, b)\<close> for single characters.\<close>

definition replace_char :: "char \<Rightarrow> char \<Rightarrow> string \<Rightarrow> string" where
  "replace_char a b s = map (\<lambda>c. if c = a then b else c) s"

definition standardize_name :: "string \<Rightarrow> string" where
  "standardize_name name =
     replace_char CHR ''-'' CHR ''_'' (replace_char CHR '' '' CHR ''_'' (lower name))"

text \<open>\<open>clean_metadata\<close>.\<close>

definition clean_metadata :: "table \<Rightarrow> py_error + table" where
  "clean_metadata metadata =
     (case handle_missing_values (metadata\<lparr>columns := map standardize_name (columns metadata)\<rparr>) of
        Inl e \<Rightarrow> Inl e
      | Inr df \<Rightarrow>
          let text_columns = filter (\<lambda>j. dtype_object (column df j)) [0..<length (columns df)]
          in Inr (drop_duplicates (dropna_all (fold (map_column clean_text_field) text_columns df))))"

text \<open>
  What cleaning does to one cell, and the rows a table has to show after cleaning: its rows
  with every cell cleaned, without those that are missing throughout.
\<close>

definition clean_cell :: "cell \<Rightarrow> cell" where
  "clean_cell c = clean_text_field (replace_missing c)"

definition cleaned_rows :: "table \<Rightarrow> cell list list" where
  "cleaned_rows df = filter (list_ex (\<lambda>c. c \<noteq> Missing)) (map (map clean_cell) (rows df))"

text \<open>The first occurrence of every element, in the order of the list.\<close>

function first_occurrences :: "'a list \<Rightarrow> 'a list" where
  "first_occurrences [] = []"
| "first_occurrences (x # xs) = x # first_occurrences (filter (\<lambda>y. y \<noteq> x) xs)"
  by pat_completeness auto
termination
  by (relation "measure length") (auto simp: less_Suc_eq_le)

text \<open>The position of a label among the column labels, and the cells of the column so named.\<close>

fun index_of :: "'a \<Rightarrow> 'a list \<Rightarrow> nat option" where
  "index_of x [] = None"
| "index_of x (y # ys) = (if x = y then Some 0 else map_option Suc (index_of x ys))"

definition column_named :: "table \<Rightarrow> string \<Rightarrow> cell list option" where
  "column_named df name = map_option (column df) (index_of name (columns df))"

text \<open>
  Texts on which one cleaning is enough: no control character other than whitespace, and
  trimming and collapsing the whitespace does not produce a missing-value indicator.
  A table is stable when each of its texts is an indicator itself or such a text.
\<close>

definition stable_text :: "string \<Rightarrow> bool" where
  "stable_text s =
     ((\<forall>c \<in> set s. is_control c \<longrightarrow> is_space c) \<and> collapse_ws (strip s) \<notin> set missing_indicators)"

definition stable_cell :: "cell \<Rightarrow> bool" where
  "stable_cell c =
     (case c of Missing \<Rightarrow> True | Text s \<Rightarrow> s \<in> set missing_indicators \<or> stable_text s)"

definition stable_cells :: "table \<Rightarrow> bool" where
  "stable_cells df = (\<forall>r \<in> set (rows df). \<forall>c \<in> set r. stable_cell c)"

section \<open>Data processor: parsing uploaded files\<close>

text \<open>
  An expression table is a data frame whose rows are labelled: \<open>Indexed name labels df\<close> has
  the index called \<open>name\<close> with one label per row of \<open>df\<close>; \<open>Tuple_indexed name labels df\<close>
  has a tuple of cells as the label of each row; \<open>Plain df\<close> is a frame that still has the
  default index. Its cells are kept as they were read; numeric conversion is the business
  of \<open>clean_expression_data\<close>.
\<close>

datatype expression_frame =
    Indexed string "cell list" table
  | Tuple_indexed string "cell list list" table
  | Plain table

fun frame_table :: "expression_frame \<Rightarrow> table" where
  "frame_table (Indexed name labels df) = df"
| "frame_table (Tuple_indexed name labels df) = df"
| "frame_table (Plain df) = df"

text \<open>\<open>xs\<close> without its element at position \<open>j\<close>.\<close>

definition remove_nth :: "nat \<Rightarrow> 'a list \<Rightarrow> 'a list" where
  "remove_nth j xs = take j xs @ drop (Suc j) xs"

text \<open>The positions of the columns with a label, and the columns of a table at given positions.\<close>

definition positions_of :: "string \<Rightarrow> string list \<Rightarrow> nat list" where
  "positions_of label names = filter (\<lambda>j. names ! j = label) [0..<length names]"

definition columns_at :: "nat list \<Rightarrow> table \<Rightarrow> table" where
  "columns_at js df =
     \<lparr>columns = map (\<lambda>j. columns df ! j) js, rows = map (\<lambda>r. map (\<lambda>j. r ! j) js) (rows df)\<rparr>"

text \<open>
  \<open>df.set_index(label)\<close>: \<open>KeyError\<close> when no column has the label. When several columns
  have it, \<open>df[label]\<close> is a frame: the label of a row is the tuple of its cells in these
  columns, and all of them are dropped.
\<close>

definition set_index :: "string \<Rightarrow> table \<Rightarrow> py_error + expression_frame" where
  "set_index label df =
     (case index_of label (columns df) of
        None \<Rightarrow> Inl KeyError
      | Some j \<Rightarrow>
          if 1 < count_list (columns df) label
          then Inr (Tuple_indexed label
                      (rows (columns_at (positions_of label (columns df)) df))
                      (columns_at (filter (\<lambda>i. columns df ! i \<noteq> label) [0..<length (columns df)]) df))
          else Inr (Indexed label (column df j)
                     \<lparr>columns = remove_nth j (columns df), rows = map (remove_nth j) (rows df)\<rparr>))"

text \<open>
  \<open>pd.DataFrame(records)\<close> for a list of dicts with text values: the columns are the keys in
  the order of their first appearance, a key that a record lacks gives a missing cell.
\<close>

definition record_keys :: "(string \<times> string) list list \<Rightarrow> string list" where
  "record_keys records =
     fold (\<lambda>d keys. keys @ filter (\<lambda>k. k \<notin> set keys) (map fst d)) records []"

definition record_row :: "string list \<Rightarrow> (string \<times> string) list \<Rightarrow> cell list" where
  "record_row keys d = map (\<lambda>k. case map_of d k of None \<Rightarrow> Missing | Some v \<Rightarrow> Text v) keys"

definition frame_of_records :: "(string \<times> string) list list \<Rightarrow> table" where
  "frame_of_records records =
     \<lparr>columns = record_keys records, rows = map (record_row (record_keys records)) records\<rparr>"

text \<open>\<open>s.startswith(p)\<close>, \<open>s.split(c)\<close> and \<open>s.split(c, 1)\<close> for a one-character separator.\<close>

definition startswith :: "string \<Rightarrow> string \<Rightarrow> bool" where
  "startswith s p = (take (length p) s = p)"

fun split_on :: "char \<Rightarrow> string \<Rightarrow> string list" where
  "split_on sep [] = [[]]"
| "split_on sep (c # s) =
     (if c = sep then [] # split_on sep s
      else (case split_on sep s of
              [] \<Rightarrow> [[c]]
            | part # parts \<Rightarrow> (c # part) # parts))"

definition split_once :: "char \<Rightarrow> string \<Rightarrow> string list" where
  "split_once sep s =
     (if sep \<in> set s
      then [takeWhile (\<lambda>c. c \<noteq> sep) s, tl (dropWhile (\<lambda>c. c \<noteq> sep) s)]
      else [s])"

text \<open>\<open>s.replace(old, '')\<close> for a non-empty \<open>old\<close>: its occurrences removed from left to right.\<close>

function remove_all :: "string \<Rightarrow> string \<Rightarrow> string" where
  "remove_all old [] = []"
| "remove_all old (c # s) =
     (if old \<noteq> [] \<and> startswith (c # s) old then remove_all old (drop (length old) (c # s))
      else c # remove_all old s)"
  by pat_completeness auto
termination
  by (relation "measure (\<lambda>(old, s). length s)") auto

text \<open>The state of the loop of \<open>_parse_soft_file\<close>.\<close>

record soft_state =
  metadata_list :: "(string \<times> string) list list"
  current_sample :: "(string \<times> string) list"
  in_sample_section :: bool

text \<open>
  The loop over the lines. \<open>line.split('=')[1]\<close> raises \<open>IndexError\<close> on a marker line
  without an equals sign; the table-begin marker ends the loop.
\<close>

fun soft_lines :: "soft_state \<Rightarrow> string list \<Rightarrow> py_error + soft_state" where
  "soft_lines st [] = Inr st"
| "soft_lines st (raw # lines) =
     (let line = strip raw in
      if startswith line ''^SAMPLE'' then
        (case split_on CHR ''='' line of
           _ # ident # _ \<Rightarrow>
             soft_lines
               \<lparr>metadata_list =
                  (if current_sample st \<noteq> [] then metadata_list st @ [current_sample st]
                   else metadata_list st),
                current_sample = [(''sample_id'', strip ident)],
                in_sample_section = True\<rparr> lines
         | _ \<Rightarrow> Inl IndexError)
      else if startswith line ''!Sample_'' then
        (if in_sample_section st then
           (case split_once CHR ''='' line of
              [key_part, value_part] \<Rightarrow>
                soft_lines
                  (st\<lparr>current_sample :=
                        dict_set (lower (remove_all ''!Sample_'' key_part)) (strip value_part)
                          (current_sample st)\<rparr>) lines
            | _ \<Rightarrow> soft_lines st lines)
         else soft_lines st lines)
      else if startswith line ''!sample_table_begin'' then Inr st
      else soft_lines st lines)"

text \<open>\<open>_parse_soft_file\<close>: the metadata table and the expression data, which is always \<open>None\<close>.\<close>

definition parse_soft_file :: "string \<Rightarrow> py_error + table \<times> expression_frame option" where
  "parse_soft_file content =
     (case soft_lines \<lparr>metadata_list = [], current_sample = [], in_sample_section = False\<rparr>
             (split_on CHR 0x0A content) of
        Inl e \<Rightarrow> Inl e
      | Inr st \<Rightarrow>
          let records = (if current_sample st \<noteq> [] then metadata_list st @ [current_sample st]
                         else metadata_list st)
          in Inr (if records \<noteq> [] then frame_of_records records
                  else \<lparr>columns = [], rows = []\<rparr>, None))"

text \<open>
  \<open>_parse_txt_file\<close>, given what \<open>pd.read_csv(..., sep='\t')\<close> made of the content: a frame or
  an exception. Every exception is raised again under a new message; the model returns
  the kind of the cause.
\<close>

definition parse_txt_file :: "py_error + table \<Rightarrow> py_error + table \<times> expression_frame option" where
  "parse_txt_file read_csv =
     (case read_csv of
        Inl e \<Rightarrow> Inl e
      | Inr df \<Rightarrow>
          if ''sample_id'' \<in> set (map lower (columns df))
             \<or> list_ex (\<lambda>col. contains ''gsm'' (lower col)) (columns df)
          then Inr (df, None)
          else
            (case columns df of
               [] \<Rightarrow> Inl IndexError
             | first # _ \<Rightarrow>
                 let sample_columns = filter (\<lambda>col. col \<noteq> first) (columns df);
                     records =
                       map (\<lambda>col. [(''sample_id'', col), (''source'', ''uploaded_file'')]) sample_columns
                 in (case set_index first df of
                       Inl e \<Rightarrow> Inl e
                     | Inr expression_data \<Rightarrow>
                         Inr (frame_of_records records, Some expression_data))))"

text \<open>\<open>parse_geo_file\<close> on the decoded content: the dispatch on the file name.\<close>

definition endswith :: "string \<Rightarrow> string \<Rightarrow> bool" where
  "endswith s p = (length p \<le> length s \<and> drop (length s - length p) s = p)"

definition parse_geo_file ::
  "(string \<Rightarrow> py_error + table) \<Rightarrow> string \<Rightarrow> string \<Rightarrow> py_error + table \<times> expression_frame option"
where
  "parse_geo_file read_csv content filename =
     (if endswith filename ''.soft'' then parse_soft_file content
      else if endswith filename ''.txt'' then parse_txt_file (read_csv content)
      else Inl UnsupportedFormat)"

section \<open>Data processor: missing-data report and recommendations\<close>

subsection \<open>Floating-point numbers\<close>

text \<open>
  A Python float is a binary64 number; it is modelled as the rational number it denotes.
  An operation on floats gives the exact result rounded to the nearest binary64 number,
  ties to the one with an even significand. \<open>binary64 x\<close> is this rounding of the number
  \<open>x\<close>, for \<open>x\<close> below the overflow threshold, which counts of cells and percentages are.
\<close>

text \<open>The number of binary digits of a positive integer, as \<open>int.bit_length()\<close>.\<close>

function bit_length :: "int \<Rightarrow> int" where
  "bit_length n = (if n \<le> 0 then 0 else bit_length (n div 2) + 1)"
  by pat_completeness auto
termination
  by (relation "measure nat") auto

text \<open>Powers of two with an integer exponent.\<close>

definition pow2 :: "int \<Rightarrow> rat" where
  "pow2 e = (if 0 \<le> e then 2 ^ nat e else 1 / 2 ^ nat (- e))"

text \<open>The exponent of a positive number \<open>x\<close>: the \<open>e\<close> with \<open>2 ^ e \<le> x < 2 ^ (e + 1)\<close>.\<close>

definition exponent :: "rat \<Rightarrow> int" where
  "exponent x =
     (if 1 \<le> x then bit_length \<lfloor>x\<rfloor> - 1 else - bit_length (\<lceil>1 / x\<rceil> - 1))"

text \<open>The nearest integer, a tie going to the even one.\<close>

definition round_half_even :: "rat \<Rightarrow> int" where
  "round_half_even q =
     (let f = \<lfloor>q\<rfloor>; d = q - of_int f
      in if d < 1 / 2 then f else if 1 / 2 < d then f + 1 else if even f then f else f + 1)"

text \<open>
  The spacing of the binary64 numbers around a positive \<open>x\<close>: 52 binary digits after the
  leading one, and the fixed spacing of the subnormal numbers below \<open>2 ^ -1022\<close>.
\<close>

definition spacing :: "rat \<Rightarrow> rat" where
  "spacing x = pow2 (max (exponent x) (- 1022) - 52)"

definition binary64 :: "rat \<Rightarrow> rat" where
  "binary64 x =
     (if x = 0 then 0
      else if 0 < x then of_int (round_half_even (x / spacing x)) * spacing x
      else - (of_int (round_half_even (- x / spacing (- x))) * spacing (- x)))"

text \<open>
  \<open>a / b\<close> for two integers, as numpy computes it: both are converted to floats and the
  quotient is rounded. \<open>x * 100\<close> for a float \<open>x\<close>: the product is rounded.
\<close>

definition true_divide :: "int \<Rightarrow> int \<Rightarrow> rat" where
  "true_divide a b = binary64 (binary64 (of_int a) / binary64 (of_int b))"

definition times_100 :: "rat \<Rightarrow> rat" where
  "times_100 x = binary64 (x * 100)"

subsection \<open>The report\<close>

text \<open>
  The report is a dict; its two sections start as empty dicts, \<open>None\<close> here, and are filled
  only for a non-empty table.
\<close>

record missing_section =
  total_cells :: nat
  missing_cells :: nat
  missing_percentage :: rat
  by_column :: "(string \<times> nat) list"

record report =
  metadata_missing :: "missing_section option"
  expression_missing :: "missing_section option"
  total_missing :: nat
  completion_rate :: rat
  missing_by_column :: "(string \<times> nat) list"

text \<open>\<open>df.isnull().sum()\<close>: the number of missing cells of every column, in column order.\<close>

definition isnull_sum :: "table \<Rightarrow> (string \<times> nat) list" where
  "isnull_sum df =
     map (\<lambda>j. (columns df ! j, length (filter isnull (column df j)))) [0..<length (columns df)]"

text \<open>
  \<open>Series.to_dict()\<close> and \<open>dict.update\<close>: the pairs are stored one after the other, a later
  value for a key that is already there replaces the earlier one.
\<close>

definition dict_update :: "('k \<times> 'v) list \<Rightarrow> ('k \<times> 'v) list \<Rightarrow> ('k \<times> 'v) list" where
  "dict_update d pairs = fold (\<lambda>(k, v) d. dict_set k v d) pairs d"

definition to_dict :: "('k \<times> 'v) list \<Rightarrow> ('k \<times> 'v) list" where
  "to_dict pairs = dict_update [] pairs"

definition percentage :: "nat \<Rightarrow> nat \<Rightarrow> rat" where
  "percentage missing_total table_total =
     (if table_total > 0 then times_100 (true_divide (int missing_total) (int table_total))
      else 0)"

text \<open>The section computed for one table; \<open>limit\<close> is the \<open>head(20)\<close> of the expression table.\<close>

definition section_of :: "table \<Rightarrow> nat option \<Rightarrow> missing_section" where
  "section_of df limit =
     (let missing = isnull_sum df;
          table_total = length (rows df) * length (columns df);
          missing_total = sum_list (map snd missing)
      in \<lparr>total_cells = table_total,
          missing_cells = missing_total,
          missing_percentage = percentage missing_total table_total,
          by_column = to_dict (case limit of None \<Rightarrow> missing | Some n \<Rightarrow> take n missing)\<rparr>)"

text \<open>\<open>generate_missing_data_report\<close>.\<close>

definition generate_missing_data_report :: "table \<Rightarrow> expression_frame option \<Rightarrow> report" where
  "generate_missing_data_report metadata expression_data =
     (let r0 = \<lparr>metadata_missing = None, expression_missing = None, total_missing = 0,
                completion_rate = 0, missing_by_column = []\<rparr>;
          r1 = (if \<not> empty_frame metadata
                then r0\<lparr>metadata_missing := Some (section_of metadata None),
                        missing_by_column :=
                          dict_update (missing_by_column r0) (to_dict (isnull_sum metadata)),
                        total_missing := total_missing r0 + missing_cells (section_of metadata None)\<rparr>
                else r0);
          r2 = (case expression_data of
                  None \<Rightarrow> r1
                | Some e \<Rightarrow>
                    if \<not> empty_frame (frame_table e)
                    then r1\<lparr>expression_missing := Some (section_of (frame_table e) (Some 20)),
                            total_missing :=
                              total_missing r1 + missing_cells (section_of (frame_table e) (Some 20))\<rparr>
                    else r1);
          cells = (case metadata_missing r2 of None \<Rightarrow> 0 | Some s \<Rightarrow> total_cells s)
                    + (case expression_missing r2 of None \<Rightarrow> 0 | Some s \<Rightarrow> total_cells s)
      in if cells > 0
         then r2\<lparr>completion_rate :=
                   times_100 (true_divide (int cells - int (total_missing r2)) (int cells))\<rparr>
         else r2)"

text \<open>\<open>report['metadata_missing']['missing_percentage']\<close>: a \<open>KeyError\<close> on an empty section.\<close>

definition metadata_missing_percentage :: "report \<Rightarrow> py_error + rat" where
  "metadata_missing_percentage r =
     (case metadata_missing r of None \<Rightarrow> Inl KeyError | Some s \<Rightarrow> Inr (missing_percentage s))"

text \<open>
  The recommendation messages. Each constructor stands for one text of the source, which
  begins with a pictograph:
  \<^item> \<open>Excellent\<close>: ``Excellent data quality! Missing data is minimal.''
  \<^item> \<open>Good\<close>: ``Good data quality. Some missing values present but manageable.''
  \<^item> \<open>Moderate\<close>: ``Moderate data quality. Consider imputation strategies for missing values.''
  \<^item> \<open>Poor\<close>: ``Poor data quality. Significant missing data may impact analysis.''
  \<^item> \<open>Columns_with_missing names\<close>: ``Columns with missing data: '' followed by the names
    joined with a comma and a blank.
  \<^item> \<open>More_columns n\<close>: ``And \<open>n\<close> more columns with missing data.''
  \<^item> \<open>Organism_curation\<close>: ``Organism information has missing values. Consider manual
    curation for better analysis.''
\<close>

datatype recommendation =
    Excellent | Good | Moderate | Poor
  | Columns_with_missing "string list" | More_columns nat | Organism_curation

text \<open>\<open>generate_quality_recommendations\<close>.\<close>

definition generate_quality_recommendations :: "report \<Rightarrow> recommendation list" where
  "generate_quality_recommendations missing_report =
     (let rate = completion_rate missing_report;
          tier = (if rate \<ge> 95 then Excellent
                  else if rate \<ge> 85 then Good
                  else if rate \<ge> 70 then Moderate
                  else Poor);
          high_missing_columns =
            map fst (filter (\<lambda>(col, count). count > 0) (missing_by_column missing_report))
      in [tier]
         @ (if high_missing_columns \<noteq> []
            then [Columns_with_missing (take 5 high_missing_columns)]
                 @ (if length high_missing_columns > 5
                    then [More_columns (length high_missing_columns - 5)] else [])
            else [])
         @ (if list_ex (\<lambda>(col, count). contains ''organism'' (lower col))
                 (missing_by_column missing_report)
            then [Organism_curation] else []))"

text \<open>The column names that a list of recommendations mentions.\<close>

fun mentioned_columns :: "recommendation list \<Rightarrow> string list" where
  "mentioned_columns [] = []"
| "mentioned_columns (Columns_with_missing names # rs) = names @ mentioned_columns rs"
| "mentioned_columns (r # rs) = mentioned_columns rs"

text \<open>The number of missing cells of a table, counted row by row.\<close>

definition count_missing :: "table \<Rightarrow> nat" where
  "count_missing df = sum_list (map (\<lambda>r. length (filter isnull r)) (rows df))"

section \<open>Data processor: extraction from accession objects\<close>

text \<open>
  The accession objects come from the GEO client. Their \<open>metadata\<close> maps a key to a list of
  texts. An attribute that is looked up with \<open>hasattr\<close> and compared with \<open>None\<close> is an
  \<open>attr\<close>.
\<close>

datatype 'a attr = No_attr | Is_none | Has 'a

type_synonym geo_metadata = "(string \<times> string list) list"






subsection \<open>Series objects\<close>










subsection \<open>Dataset objects\<close>

record gds =
  gds_name :: string
  gds_metadata :: geo_metadata
  subsets :: "(string \<times> geo_metadata) list"
  gds_table :: "table attr"



text \<open>
  The body of the \<open>try\<close> statement of \<open>_extract_gds_data\<close>, as for the series. If \<open>set_index\<close>
  raised, \<open>expression_data\<close> would already hold the copy of the table; on a table that has
  an \<open>ID_REF\<close> column it does not raise.
\<close>

definition gds_expression_block :: "gds \<Rightarrow> expression_frame option \<times> py_error option" where
  "gds_expression_block dataset =
     (case gds_table dataset of
        Has t \<Rightarrow>
          if ''ID_REF'' \<in> set (columns t) then
            (case set_index ''ID_REF'' t of
               Inl e \<Rightarrow> (Some (Plain t), Some e)
             | Inr indexed \<Rightarrow> (Some indexed, None))
          else (Some (Plain t), None)
      | _ \<Rightarrow> (None, None))"




text \<open>
  The cells of a table, and the cells and missing cells of both tables of a report taken
  together; an absent expression table has none.
\<close>

definition cells_of :: "table \<Rightarrow> nat" where
  "cells_of df = length (rows df) * length (columns df)"

definition combined_cells :: "table \<Rightarrow> expression_frame option \<Rightarrow> nat" where
  "combined_cells metadata expression_data =
     cells_of metadata + (case expression_data of None \<Rightarrow> 0 | Some e \<Rightarrow> cells_of (frame_table e))"

definition combined_missing :: "table \<Rightarrow> expression_frame option \<Rightarrow> nat" where
  "combined_missing metadata expression_data =
     count_missing metadata
       + (case expression_data of None \<Rightarrow> 0 | Some e \<Rightarrow> count_missing (frame_table e))"

definition rectangular_frames :: "table \<Rightarrow> expression_frame option \<Rightarrow> bool" where
  "rectangular_frames metadata expression_data =
     (rectangular metadata
      \<and> (case expression_data of None \<Rightarrow> True | Some e \<Rightarrow> rectangular (frame_table e)))"

section \<open>Properties of the organism normalizer\<close>

subsection \<open>The matcher finds what the pattern means\<close>

lemma last_read_Nil [simp]: "last_read prev [] = prev"
  by (simp add: last_read_def)

lemma last_read_Cons [simp]: "last_read prev (c # m) = last_read (Some c) m"
  by (simp add: last_read_def)

lemma last_read_append: "last_read prev (m1 @ m2) = last_read (last_read prev m1) m2"
  by (simp add: last_read_def)

lemma match_lit_iff:
  "match_lit l prev s = Some (prev', s') \<longleftrightarrow>
     (\<exists>m. s = m @ s' \<and> length m = length l \<and> lower m = lower l
          \<and> prev' = last_read prev m)"
proof (induction l prev s rule: match_lit.induct)
  case (1 prev s)
  show ?case by auto
next
  case (2 l ls prev)
  show ?case by auto
next
  case (3 l ls prev c s)
  show ?case
  proof (cases "lower_char c = lower_char l")
    case False
    then show ?thesis by (auto simp: lower_def Cons_eq_append_conv)
  next
    case True
    have "match_lit (l # ls) prev (c # s) = Some (prev', s') \<longleftrightarrow>
          (\<exists>m. s = m @ s' \<and> length m = length ls \<and> lower m = lower ls
               \<and> prev' = last_read (Some c) m)"
      using True 3 by simp
    also have "\<dots> \<longleftrightarrow> (\<exists>m. c # s = m @ s' \<and> length m = length (l # ls) \<and> lower m = lower (l # ls)
               \<and> prev' = last_read prev m)"
    proof
      assume "\<exists>m. s = m @ s' \<and> length m = length ls \<and> lower m = lower ls
               \<and> prev' = last_read (Some c) m"
      then obtain m where m: "s = m @ s'" "length m = length ls" "lower m = lower ls"
        "prev' = last_read (Some c) m" by blast
      then have "c # s = (c # m) @ s' \<and> length (c # m) = length (l # ls)
          \<and> lower (c # m) = lower (l # ls)
          \<and> prev' = last_read prev (c # m)"
        using True by (simp add: lower_def)
      then show "\<exists>m. c # s = m @ s' \<and> length m = length (l # ls) \<and> lower m = lower (l # ls)
               \<and> prev' = last_read prev m" by blast
    next
      assume "\<exists>m. c # s = m @ s' \<and> length m = length (l # ls) \<and> lower m = lower (l # ls)
               \<and> prev' = last_read prev m"
      then obtain m where m: "c # s = m @ s'" "length m = length (l # ls)"
        "lower m = lower (l # ls)" "prev' = last_read prev m" by blast
      from m(2) obtain d m' where mm: "m = d # m'" by (cases m) auto
      with m have "s = m' @ s' \<and> length m' = length ls \<and> lower m' = lower ls
          \<and> prev' = last_read (Some c) m'"
        by (auto simp: lower_def)
      then show "\<exists>m. s = m @ s' \<and> length m = length ls \<and> lower m = lower ls
               \<and> prev' = last_read (Some c) m" by blast
    qed
    finally show ?thesis .
  qed
qed

lemma ws_rests_iff:
  "(prev', s') \<in> set (ws_rests prev s) \<longleftrightarrow>
     (\<exists>m. s = m @ s' \<and> (\<forall>c \<in> set m. is_space c) \<and> prev' = last_read prev m)"
proof (induction s arbitrary: prev)
  case Nil
  show ?case by auto
next
  case (Cons c s)
  show ?case
  proof (cases "is_space c")
    case False
    have "(\<exists>m. c # s = m @ s' \<and> (\<forall>x \<in> set m. is_space x) \<and> prev' = last_read prev m)
          \<longleftrightarrow> (s' = c # s \<and> prev' = prev)"
    proof
      assume "\<exists>m. c # s = m @ s' \<and> (\<forall>x \<in> set m. is_space x) \<and> prev' = last_read prev m"
      then obtain m where m: "c # s = m @ s'" "\<forall>x \<in> set m. is_space x" "prev' = last_read prev m"
        by blast
      have "m = []"
      proof (cases m)
        case Nil then show ?thesis .
      next
        case (Cons d m')
        with m(1) have "d = c" by simp
        with Cons m(2) False show ?thesis by simp
      qed
      with m show "s' = c # s \<and> prev' = prev" by simp
    next
      assume "s' = c # s \<and> prev' = prev"
      then have "c # s = [] @ s' \<and> (\<forall>x \<in> set []. is_space x) \<and> prev' = last_read prev []" by simp
      then show "\<exists>m. c # s = m @ s' \<and> (\<forall>x \<in> set m. is_space x) \<and> prev' = last_read prev m"
        by blast
    qed
    with False show ?thesis by auto
  next
    case True
    have "(prev', s') \<in> set (ws_rests prev (c # s)) \<longleftrightarrow>
          (prev', s') \<in> set (ws_rests (Some c) s) \<or> (s' = c # s \<and> prev' = prev)"
      using True by auto
    also have "\<dots> \<longleftrightarrow> (\<exists>m. s = m @ s' \<and> (\<forall>x \<in> set m. is_space x) \<and> prev' = last_read (Some c) m)
          \<or> (s' = c # s \<and> prev' = prev)"
      by (simp only: Cons.IH)
    also have "\<dots> \<longleftrightarrow> (\<exists>m. c # s = m @ s' \<and> (\<forall>x \<in> set m. is_space x) \<and> prev' = last_read prev m)"
    proof
      assume "(\<exists>m. s = m @ s' \<and> (\<forall>x \<in> set m. is_space x) \<and> prev' = last_read (Some c) m)
          \<or> (s' = c # s \<and> prev' = prev)"
      then show "\<exists>m. c # s = m @ s' \<and> (\<forall>x \<in> set m. is_space x) \<and> prev' = last_read prev m"
      proof
        assume "\<exists>m. s = m @ s' \<and> (\<forall>x \<in> set m. is_space x) \<and> prev' = last_read (Some c) m"
        then obtain m where "s = m @ s'" "\<forall>x \<in> set m. is_space x" "prev' = last_read (Some c) m"
          by blast
        with True have "c # s = (c # m) @ s' \<and> (\<forall>x \<in> set (c # m). is_space x)
            \<and> prev' = last_read prev (c # m)" by simp
        then show ?thesis by blast
      next
        assume "s' = c # s \<and> prev' = prev"
        then have "c # s = [] @ s' \<and> (\<forall>x \<in> set []. is_space x) \<and> prev' = last_read prev []"
          by simp
        then show ?thesis by blast
      qed
    next
      assume "\<exists>m. c # s = m @ s' \<and> (\<forall>x \<in> set m. is_space x) \<and> prev' = last_read prev m"
      then obtain m where m: "c # s = m @ s'" "\<forall>x \<in> set m. is_space x" "prev' = last_read prev m"
        by blast
      show "(\<exists>m. s = m @ s' \<and> (\<forall>x \<in> set m. is_space x) \<and> prev' = last_read (Some c) m)
          \<or> (s' = c # s \<and> prev' = prev)"
      proof (cases m)
        case Nil
        with m show ?thesis by simp
      next
        case (Cons d m')
        with m have "s = m' @ s' \<and> (\<forall>x \<in> set m'. is_space x) \<and> prev' = last_read (Some c) m'"
          by simp
        then show ?thesis by blast
      qed
    qed
    finally show ?thesis .
  qed
qed

lemma ws_rests_last:
  "\<exists>xs. ws_rests prev s = xs @ [(prev, s)] \<and> (\<forall>x \<in> set xs. length (snd x) < length s)"
proof (induction s arbitrary: prev)
  case Nil
  show ?case by simp
next
  case (Cons c s)
  show ?case
  proof (cases "is_space c")
    case False
    then show ?thesis by simp
  next
    case True
    from Cons [of "Some c"] obtain xs where
      xs: "ws_rests (Some c) s = xs @ [(Some c, s)]" "\<forall>x \<in> set xs. length (snd x) < length s"
      by blast
    then have "ws_rests prev (c # s) = (xs @ [(Some c, s)]) @ [(prev, c # s)]
        \<and> (\<forall>x \<in> set (xs @ [(Some c, s)]). length (snd x) < length (c # s))"
      using True by auto
    then show ?thesis by blast
  qed
qed

lemma ws_rests_butlast_iff:
  "(prev', s') \<in> set (butlast (ws_rests prev s)) \<longleftrightarrow>
     (\<exists>m. m \<noteq> [] \<and> s = m @ s' \<and> (\<forall>c \<in> set m. is_space c) \<and> prev' = last_read prev m)"
proof -
  from ws_rests_last [of prev s] obtain xs where
    xs: "ws_rests prev s = xs @ [(prev, s)]" "\<forall>x \<in> set xs. length (snd x) < length s"
    by blast
  then have b: "butlast (ws_rests prev s) = xs" by simp
  have "(prev', s') \<in> set xs \<longleftrightarrow> (prev', s') \<in> set (ws_rests prev s) \<and> length s' < length s"
    using xs by auto
  also have "\<dots> \<longleftrightarrow> (\<exists>m. s = m @ s' \<and> (\<forall>c \<in> set m. is_space c) \<and> prev' = last_read prev m)
      \<and> length s' < length s"
    by (simp only: ws_rests_iff)
  also have "\<dots> \<longleftrightarrow> (\<exists>m. m \<noteq> [] \<and> s = m @ s' \<and> (\<forall>c \<in> set m. is_space c) \<and> prev' = last_read prev m)"
    by auto
  finally show ?thesis by (simp only: b)
qed

lemma match_atoms_iff:
  "(prev', s') \<in> set (match_atoms as prev s) \<longleftrightarrow>
     (\<exists>m. s = m @ s' \<and> alt_matches as m \<and> prev' = last_read prev m)"
proof (induction as arbitrary: prev s)
  case Nil
  show ?case by auto
next
  case (Cons a as)
  show ?case
  proof (cases a)
    case (Lit l)
    show ?thesis
    proof
      assume "(prev', s') \<in> set (match_atoms (a # as) prev s)"
      with Lit obtain p1 s1 where l: "match_lit l prev s = Some (p1, s1)"
        and r: "(prev', s') \<in> set (match_atoms as p1 s1)"
        by (cases "match_lit l prev s") auto
      from l obtain m1 where m1: "s = m1 @ s1" "length m1 = length l" "lower m1 = lower l"
        "p1 = last_read prev m1" unfolding match_lit_iff by blast
      from r obtain m2 where m2: "s1 = m2 @ s'" "alt_matches as m2" "prev' = last_read p1 m2"
        unfolding Cons.IH by blast
      from m1 m2 have "s = (m1 @ m2) @ s' \<and> alt_matches (a # as) (m1 @ m2)
          \<and> prev' = last_read prev (m1 @ m2)"
        by (simp add: Lit last_read_append)
      then show "\<exists>m. s = m @ s' \<and> alt_matches (a # as) m \<and> prev' = last_read prev m" by blast
    next
      assume "\<exists>m. s = m @ s' \<and> alt_matches (a # as) m \<and> prev' = last_read prev m"
      then obtain m where m: "s = m @ s'" "alt_matches (a # as) m" "prev' = last_read prev m"
        by blast
      let ?m1 = "take (length l) m" and ?m2 = "drop (length l) m"
      from m(2) Lit have a: "length l \<le> length m" "lower ?m1 = lower l" "alt_matches as ?m2"
        by simp_all
      have "s = ?m1 @ (?m2 @ s') \<and> length ?m1 = length l \<and> lower ?m1 = lower l
          \<and> last_read prev ?m1 = last_read prev ?m1"
        using m(1) a by simp
      then have l: "match_lit l prev s = Some (last_read prev ?m1, ?m2 @ s')"
        unfolding match_lit_iff by blast
      have "prev' = last_read (last_read prev ?m1) ?m2"
        using m(3) last_read_append [of prev ?m1 ?m2] by simp
      with a(3) have "(prev', s') \<in> set (match_atoms as (last_read prev ?m1) (?m2 @ s'))"
        unfolding Cons.IH by blast
      with l Lit show "(prev', s') \<in> set (match_atoms (a # as) prev s)" by simp
    qed
  next
    case Spaces1
    show ?thesis
    proof
      assume "(prev', s') \<in> set (match_atoms (a # as) prev s)"
      with Spaces1 obtain p1 s1 where l: "(p1, s1) \<in> set (butlast (ws_rests prev s))"
        and r: "(prev', s') \<in> set (match_atoms as p1 s1)"
        by auto
      from l obtain m1 where m1: "m1 \<noteq> []" "s = m1 @ s1" "\<forall>c \<in> set m1. is_space c"
        "p1 = last_read prev m1" unfolding ws_rests_butlast_iff by blast
      from r obtain m2 where m2: "s1 = m2 @ s'" "alt_matches as m2" "prev' = last_read p1 m2"
        unfolding Cons.IH by blast
      from m1(1) have "1 \<le> length m1" by (cases m1) simp_all
      with m1 m2 have "1 \<le> length m1 \<and> length m1 \<le> length (m1 @ m2)
          \<and> (\<forall>c \<in> set (take (length m1) (m1 @ m2)). is_space c)
          \<and> alt_matches as (drop (length m1) (m1 @ m2))" by simp
      then have "alt_matches (a # as) (m1 @ m2)" unfolding Spaces1 alt_matches.simps by blast
      with m1 m2 have "s = (m1 @ m2) @ s' \<and> alt_matches (a # as) (m1 @ m2)
          \<and> prev' = last_read prev (m1 @ m2)"
        by (simp add: last_read_append)
      then show "\<exists>m. s = m @ s' \<and> alt_matches (a # as) m \<and> prev' = last_read prev m" by blast
    next
      assume "\<exists>m. s = m @ s' \<and> alt_matches (a # as) m \<and> prev' = last_read prev m"
      then obtain m where m: "s = m @ s'" "alt_matches (a # as) m" "prev' = last_read prev m"
        by blast
      from m(2) obtain k where k: "1 \<le> k" "k \<le> length m" "\<forall>c \<in> set (take k m). is_space c"
        "alt_matches as (drop k m)" unfolding Spaces1 alt_matches.simps by blast
      let ?m1 = "take k m" and ?m2 = "drop k m"
      from k have ne: "?m1 \<noteq> []" by (cases m) auto
      have "?m1 \<noteq> [] \<and> s = ?m1 @ (?m2 @ s') \<and> (\<forall>c \<in> set ?m1. is_space c)
          \<and> last_read prev ?m1 = last_read prev ?m1"
        using m(1) k ne by simp
      then have l: "(last_read prev ?m1, ?m2 @ s') \<in> set (butlast (ws_rests prev s))"
        unfolding ws_rests_butlast_iff by blast
      have "prev' = last_read (last_read prev ?m1) ?m2"
        using m(3) last_read_append [of prev ?m1 ?m2] by simp
      with k(4) have "(prev', s') \<in> set (match_atoms as (last_read prev ?m1) (?m2 @ s'))"
        unfolding Cons.IH by blast
      with l Spaces1 show "(prev', s') \<in> set (match_atoms (a # as) prev s)" by force
    qed
  next
    case Spaces0
    show ?thesis
    proof
      assume "(prev', s') \<in> set (match_atoms (a # as) prev s)"
      with Spaces0 obtain p1 s1 where l: "(p1, s1) \<in> set (ws_rests prev s)"
        and r: "(prev', s') \<in> set (match_atoms as p1 s1)"
        by auto
      from l obtain m1 where m1: "s = m1 @ s1" "\<forall>c \<in> set m1. is_space c"
        "p1 = last_read prev m1" unfolding ws_rests_iff by blast
      from r obtain m2 where m2: "s1 = m2 @ s'" "alt_matches as m2" "prev' = last_read p1 m2"
        unfolding Cons.IH by blast
      from m1 m2 have "length m1 \<le> length (m1 @ m2)
          \<and> (\<forall>c \<in> set (take (length m1) (m1 @ m2)). is_space c)
          \<and> alt_matches as (drop (length m1) (m1 @ m2))" by simp
      then have "alt_matches (a # as) (m1 @ m2)" unfolding Spaces0 alt_matches.simps by blast
      with m1 m2 have "s = (m1 @ m2) @ s' \<and> alt_matches (a # as) (m1 @ m2)
          \<and> prev' = last_read prev (m1 @ m2)"
        by (simp add: last_read_append)
      then show "\<exists>m. s = m @ s' \<and> alt_matches (a # as) m \<and> prev' = last_read prev m" by blast
    next
      assume "\<exists>m. s = m @ s' \<and> alt_matches (a # as) m \<and> prev' = last_read prev m"
      then obtain m where m: "s = m @ s'" "alt_matches (a # as) m" "prev' = last_read prev m"
        by blast
      from m(2) obtain k where k: "k \<le> length m" "\<forall>c \<in> set (take k m). is_space c"
        "alt_matches as (drop k m)" unfolding Spaces0 alt_matches.simps by blast
      let ?m1 = "take k m" and ?m2 = "drop k m"
      have "s = ?m1 @ (?m2 @ s') \<and> (\<forall>c \<in> set ?m1. is_space c)
          \<and> last_read prev ?m1 = last_read prev ?m1"
        using m(1) k by simp
      then have l: "(last_read prev ?m1, ?m2 @ s') \<in> set (ws_rests prev s)"
        unfolding ws_rests_iff by blast
      have "prev' = last_read (last_read prev ?m1) ?m2"
        using m(3) last_read_append [of prev ?m1 ?m2] by simp
      with k(3) have "(prev', s') \<in> set (match_atoms as (last_read prev ?m1) (?m2 @ s'))"
        unfolding Cons.IH by blast
      with l Spaces0 show "(prev', s') \<in> set (match_atoms (a # as) prev s)" by force
    qed
  qed
qed

lemma boundary_words:
  "boundary (last_read None left) right \<longleftrightarrow> word_end left \<noteq> word_start right"
  by (cases right) (auto simp: boundary_def last_read_def word_end_def word_start_def)

lemma match_at_iff:
  "match_at alts (last_read None left) rest \<longleftrightarrow>
     (\<exists>m right. rest = m @ right
        \<and> (\<exists>alt \<in> set alts. alt_matches alt m)
        \<and> word_end left \<noteq> word_start (m @ right)
        \<and> word_end (left @ m) \<noteq> word_start right)"
proof -
  have "match_at alts (last_read None left) rest \<longleftrightarrow>
      boundary (last_read None left) rest
      \<and> (\<exists>alt \<in> set alts. \<exists>x \<in> set (match_atoms alt (last_read None left) rest).
            boundary (fst x) (snd x))"
    by (simp add: match_at_def list_ex_iff case_prod_beta)
  also have "\<dots> \<longleftrightarrow> boundary (last_read None left) rest
      \<and> (\<exists>alt \<in> set alts. \<exists>m right. rest = m @ right \<and> alt_matches alt m
            \<and> boundary (last_read (last_read None left) m) right)"
  proof -
    have "(\<exists>x \<in> set (match_atoms alt (last_read None left) rest). boundary (fst x) (snd x))
          \<longleftrightarrow> (\<exists>m right. rest = m @ right \<and> alt_matches alt m
            \<and> boundary (last_read (last_read None left) m) right)" for alt
    proof
      assume "\<exists>x \<in> set (match_atoms alt (last_read None left) rest). boundary (fst x) (snd x)"
      then obtain p r where "(p, r) \<in> set (match_atoms alt (last_read None left) rest)"
        and b: "boundary p r" by auto
      then obtain m where "rest = m @ r" "alt_matches alt m" "p = last_read (last_read None left) m"
        unfolding match_atoms_iff by blast
      with b show "\<exists>m right. rest = m @ right \<and> alt_matches alt m
            \<and> boundary (last_read (last_read None left) m) right" by blast
    next
      assume "\<exists>m right. rest = m @ right \<and> alt_matches alt m
            \<and> boundary (last_read (last_read None left) m) right"
      then obtain m right where m: "rest = m @ right" "alt_matches alt m"
        "boundary (last_read (last_read None left) m) right" by blast
      then have "(last_read (last_read None left) m, right)
          \<in> set (match_atoms alt (last_read None left) rest)"
        unfolding match_atoms_iff by blast
      with m(3) show "\<exists>x \<in> set (match_atoms alt (last_read None left) rest). boundary (fst x) (snd x)"
        by force
    qed
    then show ?thesis by simp
  qed
  also have "\<dots> \<longleftrightarrow> (\<exists>m right. rest = m @ right
        \<and> (\<exists>alt \<in> set alts. alt_matches alt m)
        \<and> word_end left \<noteq> word_start (m @ right)
        \<and> word_end (left @ m) \<noteq> word_start right)"
    unfolding last_read_append [symmetric] boundary_words by blast
  finally show ?thesis .
qed

lemma search_from_iff:
  "search_from p (last_read None left) s \<longleftrightarrow>
     (\<exists>skipped rest. s = skipped @ rest \<and> match_at p (last_read None (left @ skipped)) rest)"
proof (induction s arbitrary: left)
  case Nil
  show ?case by simp
next
  case (Cons c s)
  have step: "last_read None (left @ [c]) = Some c" by (simp add: last_read_def)
  have "search_from p (last_read None left) (c # s) \<longleftrightarrow>
      match_at p (last_read None left) (c # s) \<or> search_from p (last_read None (left @ [c])) s"
    by (simp add: step)
  also have "\<dots> \<longleftrightarrow> match_at p (last_read None left) (c # s)
      \<or> (\<exists>skipped rest. s = skipped @ rest \<and> match_at p (last_read None ((left @ [c]) @ skipped)) rest)"
    by (simp only: Cons.IH)
  also have "\<dots> \<longleftrightarrow> (\<exists>skipped rest. c # s = skipped @ rest
      \<and> match_at p (last_read None (left @ skipped)) rest)"
  proof
    assume "match_at p (last_read None left) (c # s)
      \<or> (\<exists>skipped rest. s = skipped @ rest \<and> match_at p (last_read None ((left @ [c]) @ skipped)) rest)"
    then show "\<exists>skipped rest. c # s = skipped @ rest \<and> match_at p (last_read None (left @ skipped)) rest"
    proof
      assume "match_at p (last_read None left) (c # s)"
      then have "c # s = [] @ (c # s) \<and> match_at p (last_read None (left @ [])) (c # s)" by simp
      then show ?thesis by blast
    next
      assume "\<exists>skipped rest. s = skipped @ rest \<and> match_at p (last_read None ((left @ [c]) @ skipped)) rest"
      then obtain skipped rest where "s = skipped @ rest"
        "match_at p (last_read None ((left @ [c]) @ skipped)) rest" by blast
      then have "c # s = (c # skipped) @ rest \<and> match_at p (last_read None (left @ (c # skipped))) rest"
        by simp
      then show ?thesis by blast
    qed
  next
    assume "\<exists>skipped rest. c # s = skipped @ rest \<and> match_at p (last_read None (left @ skipped)) rest"
    then obtain skipped rest where sk: "c # s = skipped @ rest"
      "match_at p (last_read None (left @ skipped)) rest" by blast
    show "match_at p (last_read None left) (c # s)
      \<or> (\<exists>skipped rest. s = skipped @ rest \<and> match_at p (last_read None ((left @ [c]) @ skipped)) rest)"
    proof (cases skipped)
      case Nil
      with sk show ?thesis by simp
    next
      case (Cons d sk')
      with sk have "s = sk' @ rest \<and> match_at p (last_read None ((left @ [c]) @ sk')) rest" by simp
      then show ?thesis by blast
    qed
  qed
  finally show ?case .
qed

text \<open>The matcher finds a pattern exactly when the pattern is found in the text.\<close>

lemma re_search_iff: "re_search p s = pattern_found p s"
proof -
  have "re_search p s \<longleftrightarrow> search_from p (last_read None []) s"
    by (simp add: re_search_def)
  also have "\<dots> \<longleftrightarrow> (\<exists>left rest. s = left @ rest \<and> match_at p (last_read None left) rest)"
    unfolding search_from_iff by simp
  also have "\<dots> \<longleftrightarrow> (\<exists>left rest. s = left @ rest \<and> (\<exists>m right. rest = m @ right
        \<and> (\<exists>alt \<in> set p. alt_matches alt m)
        \<and> word_end left \<noteq> word_start (m @ right)
        \<and> word_end (left @ m) \<noteq> word_start right))"
    by (simp only: match_at_iff)
  also have "\<dots> \<longleftrightarrow> pattern_found p s"
    unfolding pattern_found_def by blast
  finally show ?thesis .
qed


subsection \<open>The order of the stages\<close>

lemma first_pattern_find:
  "first_pattern ps s = map_option snd (find (\<lambda>(p, name). re_search p s) ps)"
  by (induction ps) auto

lemma capitalized_words_Suc:
  "capitalized_words (Suc i) ws =
     map (\<lambda>w. if lower w \<in> set particles then lower w else capitalize w) ws"
  by (induction ws arbitrary: i) auto

lemma split_ws_snoc_space:
  assumes d: "is_space d"
  shows "split_ws (s @ [d]) = split_ws s"
proof (induction s rule: split_ws.induct)
  case 1
  show ?case using d by simp
next
  case (2 c s)
  show ?case
  proof (cases "is_space c")
    case True
    have l: "split_ws ((c # s) @ [d]) = split_ws (dropWhile is_space (s @ [d]))"
      using True by simp
    have r: "split_ws (c # s) = split_ws (dropWhile is_space s)"
      using True by simp
    show ?thesis
    proof (cases "\<forall>x \<in> set s. is_space x")
      case all: True
      then have "dropWhile is_space (s @ [d]) = []" and "dropWhile is_space s = []"
        using d by simp_all
      with l r show ?thesis by (simp only:)
    next
      case False
      then have "dropWhile is_space (s @ [d]) = dropWhile is_space s @ [d]"
        by (auto simp: dropWhile_append)
      with l r 2(1) [OF True] show ?thesis by (simp only:)
    qed
  next
    case False
    let ?P = "\<lambda>x. \<not> is_space x"
    have tw: "takeWhile ?P (s @ [d]) = takeWhile ?P s"
    proof (cases "\<forall>x \<in> set s. ?P x")
      case True
      then have "takeWhile ?P (s @ [d]) = s @ takeWhile ?P [d]"
        by (simp add: takeWhile_append2)
      also have "\<dots> = s" using d by simp
      also have "\<dots> = takeWhile ?P s" using True by (metis takeWhile_eq_all_conv)
      finally show ?thesis .
    next
      case False
      then show ?thesis by (auto simp: takeWhile_append)
    qed
    have l: "split_ws ((c # s) @ [d]) = (c # takeWhile ?P (s @ [d])) # split_ws (dropWhile ?P (s @ [d]))"
      using False by simp
    have r: "split_ws (c # s) = (c # takeWhile ?P s) # split_ws (dropWhile ?P s)"
      using False by simp
    have "split_ws (dropWhile ?P (s @ [d])) = split_ws (dropWhile ?P s)"
    proof (cases "\<forall>x \<in> set s. ?P x")
      case True
      then have "dropWhile ?P (s @ [d]) = [d]" and "dropWhile ?P s = []"
        using d by simp_all
      moreover have "split_ws [d] = split_ws []" using d by simp
      ultimately show ?thesis by (simp only:)
    next
      case F: False
      then have "dropWhile ?P (s @ [d]) = dropWhile ?P s @ [d]"
        by (auto simp: dropWhile_append)
      with 2(2) [OF False] show ?thesis by (simp only:)
    qed
    with l r tw show ?thesis by (simp only:)
  qed
qed

lemma split_ws_rstrip: "split_ws (rstrip s) = split_ws s"
proof (induction s rule: rev_induct)
  case Nil
  then show ?case by (simp add: rstrip_def)
next
  case (snoc d s)
  show ?case
  proof (cases "is_space d")
    case True
    then have "rstrip (s @ [d]) = rstrip s" by (simp add: rstrip_def)
    with snoc True show ?thesis by (simp add: split_ws_snoc_space)
  next
    case False
    then show ?thesis by (simp add: rstrip_def)
  qed
qed

lemma split_ws_lstrip: "split_ws (lstrip s) = split_ws s"
  unfolding lstrip_def by (induction s) auto

lemma split_ws_strip: "split_ws (strip s) = split_ws s"
  by (simp add: strip_def split_ws_rstrip split_ws_lstrip)

lemma capitalize_is_spec_title_case:
  "join '' '' (capitalized_words 0 (split_ws (strip s))) = spec_title_case s"
  by (cases "split_ws s") (simp_all add: split_ws_strip spec_title_case_def capitalized_words_Suc)

text \<open>
  Claim C3. For a non-missing, non-empty name the result is decided in this order: the
  alias mapping, looked up at the cleaned lowercased name; otherwise the first pattern of
  the declared order that is found in the cleaned name, where found means that a part of
  the name is matched by an alternative of the pattern up to case and has a word boundary
  on both sides; otherwise the title-casing of the whitespace-separated tokens of the
  original name, particles after the first token in lower case. This holds for every state
  of the normalizer, so also after aliases were added.
\<close>

theorem normalize_precedence:
  assumes "s \<noteq> []" and "cased s"
  shows "normalize_organism_name nz (Some s) =
     Some (case map_of (organism_mappings nz) (organism_clean s) of
             Some canonical \<Rightarrow> canonical
           | None \<Rightarrow>
               (case find (\<lambda>(p, name). pattern_found p (organism_clean s)) (organism_patterns nz) of
                  Some (p, name) \<Rightarrow> name
                | None \<Rightarrow> spec_title_case s))"
  using assms(1)
  by (auto simp: normalize_organism_name_def capitalize_organism_name_def first_pattern_find
      capitalize_is_spec_title_case re_search_iff split: option.splits)

text \<open>
  Claim C3 at names that are decided by each stage: an alias reached only through the
  cleaning, patterns found through each kind of alternative and between replaced
  punctuation, the first of two patterns that are both found, a pattern word inside a
  longer word, which is not found, the particle rule, and a name with an accented letter.
\<close>

theorem normalize_precedence_witness:
  "normalize_organism_name init_normalizer (Some ''  Homo-Sapiens '') = Some ''Homo sapiens'' \<and>
   normalize_organism_name init_normalizer (Some ''a Rat (wild)'') = Some ''Rattus norvegicus'' \<and>
   normalize_organism_name init_normalizer (Some ''D.  Melanogaster strain'')
     = Some ''Drosophila melanogaster'' \<and>
   normalize_organism_name init_normalizer (Some ''Human and mouse'') = Some ''Homo sapiens'' \<and>
   normalize_organism_name init_normalizer (Some ''pirate ship'') = Some ''Pirate Ship'' \<and>
   normalize_organism_name init_normalizer (Some ''candida SP. albicans'')
     = Some ''Candida sp. Albicans'' \<and>
   normalize_organism_name init_normalizer (Some (CHR 0xE9 # ''human'')) = Some (CHR 0xC9 # ''human'')"
proof -
  note by_matcher = re_search_iff [symmetric]
  have h1: "''  Homo-Sapiens '' \<noteq> []" "cased ''  Homo-Sapiens ''"
    by (simp_all add: cased_def)
  have h2: "''a Rat (wild)'' \<noteq> []" "cased ''a Rat (wild)''"
    by (simp_all add: cased_def)
  have h3: "''D.  Melanogaster strain'' \<noteq> []" "cased ''D.  Melanogaster strain''"
    by (simp_all add: cased_def)
  have h4: "''Human and mouse'' \<noteq> []" "cased ''Human and mouse''"
    by (simp_all add: cased_def)
  have h5: "''pirate ship'' \<noteq> []" "cased ''pirate ship''"
    by (simp_all add: cased_def)
  have h6: "''candida SP. albicans'' \<noteq> []" "cased ''candida SP. albicans''"
    by (simp_all add: cased_def)
  have h7: "CHR 0xE9 # ''human'' \<noteq> []" "cased (CHR 0xE9 # ''human'')"
    by (simp_all add: cased_def)
  have "normalize_organism_name init_normalizer (Some ''  Homo-Sapiens '') = Some ''Homo sapiens''"
    by (subst normalize_precedence [OF h1, unfolded by_matcher]) code_simp
  moreover
  have "normalize_organism_name init_normalizer (Some ''a Rat (wild)'') = Some ''Rattus norvegicus''"
    by (subst normalize_precedence [OF h2, unfolded by_matcher]) code_simp
  moreover
  have "normalize_organism_name init_normalizer (Some ''D.  Melanogaster strain'')
     = Some ''Drosophila melanogaster''"
    by (subst normalize_precedence [OF h3, unfolded by_matcher]) code_simp
  moreover
  have "normalize_organism_name init_normalizer (Some ''Human and mouse'') = Some ''Homo sapiens''"
    by (subst normalize_precedence [OF h4, unfolded by_matcher]) code_simp
  moreover
  have "normalize_organism_name init_normalizer (Some ''pirate ship'') = Some ''Pirate Ship''"
    by (subst normalize_precedence [OF h5, unfolded by_matcher]) code_simp
  moreover
  have "normalize_organism_name init_normalizer (Some ''candida SP. albicans'')
     = Some ''Candida sp. Albicans''"
    by (subst normalize_precedence [OF h6, unfolded by_matcher]) code_simp
  moreover
  have "normalize_organism_name init_normalizer (Some (CHR 0xE9 # ''human''))
     = Some (CHR 0xC9 # ''human'')"
    by (subst normalize_precedence [OF h7, unfolded by_matcher]) code_simp
  ultimately show ?thesis by (intro conjI)
qed

subsection \<open>The seeded examples\<close>

lemma normalize_human:
  "normalize_organism_name init_normalizer (Some ''human'') = Some ''Homo sapiens''"
  by code_simp

lemma normalize_h_sapiens:
  "normalize_organism_name init_normalizer (Some ''H. Sapiens'') = Some ''Homo sapiens''"
  by code_simp

lemma normalize_mus_musculus:
  "normalize_organism_name init_normalizer (Some ''Mus_musculus'') = Some ''Mus musculus''"
  by code_simp

lemma normalize_empty:
  "normalize_organism_name init_normalizer (Some []) = Some []"
  by code_simp

lemma normalize_xenopus:
  "normalize_organism_name init_normalizer (Some ''xenopus laevis'') = Some ''Xenopus Laevis''"
  by code_simp

text \<open>
  Claim C4. With the seeded normalizer, \<open>human\<close> and \<open>H. Sapiens\<close> give \<open>Homo sapiens\<close>,
  \<open>Mus_musculus\<close> gives \<open>Mus musculus\<close>, the empty name is returned as it is, and the
  unrecognized \<open>xenopus laevis\<close> comes back title-cased.
\<close>

theorem normalize_examples:
  "normalize_organism_name init_normalizer (Some ''human'') = Some ''Homo sapiens'' \<and>
   normalize_organism_name init_normalizer (Some ''H. Sapiens'') = Some ''Homo sapiens'' \<and>
   normalize_organism_name init_normalizer (Some ''Mus_musculus'') = Some ''Mus musculus'' \<and>
   normalize_organism_name init_normalizer (Some []) = Some [] \<and>
   normalize_organism_name init_normalizer (Some ''xenopus laevis'') = Some ''Xenopus Laevis''"
  by (intro conjI normalize_human normalize_h_sapiens normalize_mus_musculus normalize_empty
      normalize_xenopus)

section \<open>Properties of cleaning\<close>

subsection \<open>Column loops act cell by cell\<close>

lemma map_column_columns [simp]: "columns (map_column f j df) = columns df"
  by (simp add: map_column_def)

lemma fold_map_column_columns [simp]: "columns (fold (map_column f) js df) = columns df"
  by (induction js arbitrary: df) simp_all

lemma guarded_step:
  assumes "f Missing = Missing"
  shows "(if dtype_object (column d j) then map_column f j d else d) = map_column f j d"
proof (cases "dtype_object (column d j)")
  case True
  then show ?thesis by simp
next
  case False
  then have m: "\<forall>r \<in> set (rows d). r ! j = Missing"
    by (auto simp: dtype_object_def column_def list_ex_iff)
  have "map (\<lambda>r. r[j := f (r ! j)]) (rows d) = map (\<lambda>r. r) (rows d)"
  proof (rule map_cong [OF refl])
    fix r assume "r \<in> set (rows d)"
    with m have "r ! j = Missing" by blast
    then have "r[j := f (r ! j)] = r[j := r ! j]" using assms by simp
    then show "r[j := f (r ! j)] = r" by simp
  qed
  with False show ?thesis by (simp add: map_column_def)
qed

lemma column_map_column_other:
  "i \<noteq> j \<Longrightarrow> column (map_column f i d) j = column d j"
  by (simp add: column_def map_column_def)

lemma fold_guarded_now:
  assumes "f Missing = Missing"
  shows "fold (\<lambda>j d. if dtype_object (column d j) then map_column f j d else d) js df
         = fold (map_column f) js df"
  by (induction js arbitrary: df) (simp_all add: guarded_step [where f = f, OF assms])

lemma fold_guarded_before:
  assumes f: "f Missing = Missing"
  shows "distinct js \<Longrightarrow> (\<forall>j \<in> set js. P j \<longleftrightarrow> dtype_object (column d j)) \<Longrightarrow>
         fold (map_column f) (filter P js) d = fold (map_column f) js d"
proof (induction js arbitrary: d)
  case Nil
  then show ?case by simp
next
  case (Cons a js)
  have step: "(if P a then map_column f a d else d) = map_column f a d"
    using Cons.prems(2) guarded_step [where f = f and d = d and j = a, OF f] by simp
  have "\<forall>j \<in> set js. P j \<longleftrightarrow> dtype_object (column (map_column f a d) j)"
  proof
    fix j assume j: "j \<in> set js"
    with Cons.prems(1) have "a \<noteq> j" by auto
    then have "column (map_column f a d) j = column d j" by (rule column_map_column_other)
    moreover from j Cons.prems(2) have "P j \<longleftrightarrow> dtype_object (column d j)" by simp
    ultimately show "P j \<longleftrightarrow> dtype_object (column (map_column f a d) j)" by (simp only:)
  qed
  moreover from Cons.prems(1) have "distinct js" by simp
  ultimately have ih: "fold (map_column f) (filter P js) (map_column f a d) = fold (map_column f) js (map_column f a d)"
    by (rule Cons.IH [rotated])
  show ?case
  proof (cases "P a")
    case True
    with ih show ?thesis by simp
  next
    case False
    with step have "map_column f a d = d" by simp
    with False ih show ?thesis by simp
  qed
qed

lemma fold_map_column_rows:
  "rows (fold (map_column f) js df) = map (fold (\<lambda>j r. r[j := f (r ! j)]) js) (rows df)"
  by (induction js arbitrary: df) (simp_all add: map_column_def comp_def)

lemma fold_update_prefix:
  "k \<le> length r \<Longrightarrow> fold (\<lambda>j r. r[j := f (r ! j)]) [0..<k] r = map f (take k r) @ drop k r"
proof (induction k)
  case 0
  then show ?case by simp
next
  case (Suc k)
  then have k: "k < length r" by simp
  have "fold (\<lambda>j r. r[j := f (r ! j)]) [0..<Suc k] r
        = (map f (take k r) @ drop k r)[k := f ((map f (take k r) @ drop k r) ! k)]"
    using Suc by simp
  also have "(map f (take k r) @ drop k r) ! k = r ! k"
    using k by (simp add: nth_append)
  also have "(map f (take k r) @ drop k r)[k := f (r ! k)] = map f (take k r) @ (drop k r)[0 := f (r ! k)]"
    using k by (simp add: list_update_append)
  also have "(drop k r)[0 := f (r ! k)] = f (r ! k) # drop (Suc k) r"
    using k by (simp add: Cons_nth_drop_Suc [symmetric])
  also have "map f (take k r) @ f (r ! k) # drop (Suc k) r = map f (take (Suc k) r) @ drop (Suc k) r"
    using k by (simp add: take_Suc_conv_app_nth)
  finally show ?case .
qed

lemma fold_map_column_all:
  assumes "rectangular df"
  shows "fold (map_column f) [0..<length (columns df)] df = df\<lparr>rows := map (map f) (rows df)\<rparr>"
proof -
  have "map (fold (\<lambda>j r. r[j := f (r ! j)]) [0..<length (columns df)]) (rows df) = map (map f) (rows df)"
  proof (rule map_cong [OF refl])
    fix r assume "r \<in> set (rows df)"
    with assms have "length (columns df) = length r" by (simp add: rectangular_def)
    then show "fold (\<lambda>j r. r[j := f (r ! j)]) [0..<length (columns df)] r = map f r"
      using fold_update_prefix [of "length r" r f] by simp
  qed
  then show ?thesis
    by (simp add: table.equality fold_map_column_rows)
qed

lemma handle_missing_values_cells:
  assumes "rectangular df"
  shows "handle_missing_values df =
     (if distinct (columns df) then Inr (df\<lparr>rows := map (map replace_missing) (rows df)\<rparr>)
      else Inl AttributeError)"
proof -
  have "replace_missing Missing = Missing" by (simp add: replace_missing_def)
  then show ?thesis
    by (simp add: handle_missing_values_def fold_guarded_now fold_map_column_all [OF assms])
qed

lemma clean_text_columns_cells:
  assumes "rectangular df"
  shows "fold (map_column clean_text_field)
           (filter (\<lambda>j. dtype_object (column df j)) [0..<length (columns df)]) df
         = df\<lparr>rows := map (map clean_text_field) (rows df)\<rparr>"
proof -
  have "clean_text_field Missing = Missing" by (simp add: clean_text_field_def)
  then have "fold (map_column clean_text_field)
           (filter (\<lambda>j. dtype_object (column df j)) [0..<length (columns df)]) df
         = fold (map_column clean_text_field) [0..<length (columns df)] df"
    by (intro fold_guarded_before) simp_all
  then show ?thesis by (simp add: fold_map_column_all [OF assms])
qed

lemma clean_metadata_cells:
  assumes "rectangular T"
  shows "clean_metadata T =
     (if distinct (map standardize_name (columns T))
      then Inr \<lparr>columns = map standardize_name (columns T),
                rows = rev (remdups (rev (filter (list_ex (\<lambda>c. c \<noteq> Missing))
                         (map (map (\<lambda>c. clean_text_field (replace_missing c))) (rows T)))))\<rparr>
      else Inl AttributeError)"
proof (cases "distinct (map standardize_name (columns T))")
  case False
  then show ?thesis
    by (simp add: clean_metadata_def handle_missing_values_def)
next
  case True
  define df where "df = T\<lparr>columns := map standardize_name (columns T)\<rparr>"
  define d1 where "d1 = df\<lparr>rows := map (map replace_missing) (rows df)\<rparr>"
  have r0: "rectangular df" using assms by (simp add: rectangular_def df_def)
  have r1: "rectangular d1" using assms by (simp add: rectangular_def df_def d1_def)
  have h: "handle_missing_values df = Inr d1"
    using True handle_missing_values_cells [OF r0] by (simp add: df_def d1_def)
  have c: "fold (map_column clean_text_field)
             (filter (\<lambda>j. dtype_object (column d1 j)) [0..<length (columns d1)]) d1
           = d1\<lparr>rows := map (map clean_text_field) (rows d1)\<rparr>"
    by (rule clean_text_columns_cells [OF r1])
  have "clean_metadata T =
      Inr (drop_duplicates (dropna_all (d1\<lparr>rows := map (map clean_text_field) (rows d1)\<rparr>)))"
    unfolding clean_metadata_def df_def [symmetric] h by (simp only: sum.case Let_def c)
  also have "drop_duplicates (dropna_all (d1\<lparr>rows := map (map clean_text_field) (rows d1)\<rparr>))
      = \<lparr>columns = map standardize_name (columns T),
         rows = rev (remdups (rev (filter (list_ex (\<lambda>c. c \<noteq> Missing))
                  (map (map (\<lambda>c. clean_text_field (replace_missing c))) (rows T)))))\<rparr>"
    by (simp add: drop_duplicates_def dropna_all_def isnull_def d1_def df_def comp_def)
  finally show ?thesis using True by simp
qed


subsection \<open>Trimming and collapsing whitespace\<close>

lemma is_space_blank: "is_space CHR '' ''"
  by (simp add: is_space_def whitespace_def)

lemma not_control_blank: "\<not> is_control CHR '' ''"
  by (simp add: is_control_def)

lemma collapse_ws_Nil_iff: "collapse_ws u = [] \<longleftrightarrow> u = []"
  by (cases u) simp_all

lemma dropWhile_collapse_ws:
  "u = [] \<or> \<not> is_space (hd u) \<Longrightarrow> dropWhile is_space (collapse_ws u) = collapse_ws u"
  by (cases u) auto

lemma dropWhile_no_lead: "dropWhile is_space s = [] \<or> \<not> is_space (hd (dropWhile is_space s))"
  using hd_dropWhile [of is_space s] by blast

lemma collapse_ws_idem: "collapse_ws (collapse_ws s) = collapse_ws s"
proof (induction s rule: collapse_ws.induct)
  case 1
  show ?case by simp
next
  case (2 c s)
  show ?case
  proof (cases "is_space c")
    case True
    let ?u = "dropWhile is_space s"
    have "collapse_ws (collapse_ws (c # s)) = CHR '' '' # collapse_ws (dropWhile is_space (collapse_ws ?u))"
      using True by (simp add: is_space_blank)
    also have "dropWhile is_space (collapse_ws ?u) = collapse_ws ?u"
      by (rule dropWhile_collapse_ws [OF dropWhile_no_lead])
    also have "collapse_ws (collapse_ws ?u) = collapse_ws ?u"
      by (rule 2(1) [OF True])
    also have "CHR '' '' # collapse_ws ?u = collapse_ws (c # s)"
      using True by simp
    finally show ?thesis .
  next
    case False
    with 2(2) show ?thesis by simp
  qed
qed

lemma set_collapse_ws: "set (collapse_ws s) \<subseteq> {c \<in> set s. \<not> is_space c} \<union> {CHR '' ''}"
proof (induction s rule: collapse_ws.induct)
  case 1
  show ?case by simp
next
  case (2 c s)
  show ?case
  proof (cases "is_space c")
    case True
    have "set (dropWhile is_space s) \<subseteq> set s" by (auto dest: set_dropWhileD)
    with 2(1) [OF True] True show ?thesis by auto
  next
    case False
    with 2(2) show ?thesis by auto
  qed
qed

lemma last_collapse_ws:
  "s \<noteq> [] \<Longrightarrow> \<not> is_space (last s) \<Longrightarrow> collapse_ws s \<noteq> [] \<and> \<not> is_space (last (collapse_ws s))"
proof (induction s rule: collapse_ws.induct)
  case 1
  then show ?case by simp
next
  case (2 c s)
  show ?case
  proof (cases "is_space c")
    case True
    with 2(4) have ne: "s \<noteq> []" by auto
    with 2(4) have ls: "\<not> is_space (last s)" by simp
    from ne ls have "\<not> (\<forall>x \<in> set s. is_space x)" using last_in_set by blast
    then have dn: "dropWhile is_space s \<noteq> []" by simp
    then have "last (dropWhile is_space s) = last s"
      by (metis last_appendR takeWhile_dropWhile_id)
    with 2(1) [OF True dn] ls have "collapse_ws (dropWhile is_space s) \<noteq> [] \<and>
        \<not> is_space (last (collapse_ws (dropWhile is_space s)))" by simp
    with True show ?thesis by simp
  next
    case False
    show ?thesis
    proof (cases "s = []")
      case True
      with False show ?thesis by simp
    next
      case ne: False
      with 2(4) have "\<not> is_space (last s)" by simp
      with 2(2) [OF False ne] have "collapse_ws s \<noteq> [] \<and> \<not> is_space (last (collapse_ws s))" by simp
      with False show ?thesis by simp
    qed
  qed
qed

lemma lstrip_id: "t = [] \<or> \<not> is_space (hd t) \<Longrightarrow> lstrip t = t"
  by (cases t) (auto simp: lstrip_def)

lemma rstrip_id: "t = [] \<or> \<not> is_space (last t) \<Longrightarrow> rstrip t = t"
proof -
  assume a: "t = [] \<or> \<not> is_space (last t)"
  then have "rev t = [] \<or> \<not> is_space (hd (rev t))" by (auto simp: hd_rev)
  then have "dropWhile is_space (rev t) = rev t" by (cases "rev t") auto
  then show ?thesis by (simp add: rstrip_def)
qed

lemma rstrip_take: "rstrip v = take (length (rstrip v)) v"
proof -
  have "rstrip v = rev (drop (length (takeWhile is_space (rev v))) (rev v))"
    by (simp add: rstrip_def dropWhile_eq_drop)
  also have "\<dots> = take (length v - length (takeWhile is_space (rev v))) v"
    by (simp add: rev_drop)
  finally have e: "rstrip v = take (length v - length (takeWhile is_space (rev v))) v" .
  then have "length (rstrip v) = length v - length (takeWhile is_space (rev v))"
    by (metis length_take min.absorb2 diff_le_self)
  with e show ?thesis by simp
qed

lemma rstrip_no_trail: "rstrip v = [] \<or> \<not> is_space (last (rstrip v))"
proof (cases "dropWhile is_space (rev v) = []")
  case True
  then show ?thesis by (simp add: rstrip_def)
next
  case False
  then have "\<not> is_space (hd (dropWhile is_space (rev v)))" by (rule hd_dropWhile)
  with False show ?thesis by (simp add: rstrip_def last_rev)
qed

lemma strip_no_lead: "strip s = [] \<or> \<not> is_space (hd (strip s))"
proof (cases "strip s = []")
  case True
  then show ?thesis by simp
next
  case False
  let ?v = "lstrip s"
  have t: "strip s = take (length (strip s)) ?v"
    unfolding strip_def by (rule rstrip_take)
  from False have "0 < length (strip s)" by simp
  then have "hd (take (length (strip s)) ?v) = hd ?v" by (simp add: hd_take)
  with t have h: "hd (strip s) = hd ?v" by simp
  from False t have "?v \<noteq> []" by (metis take_Nil)
  then have "\<not> is_space (hd ?v)" unfolding lstrip_def by (rule hd_dropWhile)
  with h show ?thesis by simp
qed

lemma strip_no_trail: "strip s = [] \<or> \<not> is_space (last (strip s))"
  unfolding strip_def by (rule rstrip_no_trail)

lemma set_strip: "set (strip s) \<subseteq> set s"
proof -
  have "set (rstrip v) \<subseteq> set v" for v
    using set_dropWhileD [of _ is_space "rev v"] by (auto simp: rstrip_def)
  moreover have "set (lstrip s) \<subseteq> set s"
    by (auto simp: lstrip_def dest: set_dropWhileD)
  ultimately show ?thesis unfolding strip_def by blast
qed

lemma trimmed_collapse_fixed:
  fixes s :: string
  defines "t \<equiv> collapse_ws (strip s)"
  shows "collapse_ws (strip t) = t"
proof -
  have lead: "t = [] \<or> \<not> is_space (hd t)"
  proof (cases "strip s")
    case Nil
    then show ?thesis by (simp add: t_def)
  next
    case (Cons c u)
    with strip_no_lead [of s] have "\<not> is_space c" by simp
    with Cons show ?thesis by (simp add: t_def)
  qed
  have trail: "t = [] \<or> \<not> is_space (last t)"
  proof (cases "strip s = []")
    case True
    then show ?thesis by (simp add: t_def)
  next
    case False
    with strip_no_trail [of s] have "\<not> is_space (last (strip s))" by simp
    with False last_collapse_ws show ?thesis unfolding t_def by blast
  qed
  have "strip t = t"
    unfolding strip_def by (simp add: lstrip_id [OF lead] rstrip_id [OF trail])
  then show ?thesis by (simp add: t_def collapse_ws_idem)
qed

lemma collapsed_not_control:
  assumes "\<forall>c \<in> set s. is_control c \<longrightarrow> is_space c"
  shows "\<forall>c \<in> set (collapse_ws (strip s)). \<not> is_control c"
proof
  fix c assume "c \<in> set (collapse_ws (strip s))"
  with set_collapse_ws [of "strip s"] have "(c \<in> set (strip s) \<and> \<not> is_space c) \<or> c = CHR '' ''"
    by auto
  then show "\<not> is_control c"
  proof
    assume "c \<in> set (strip s) \<and> \<not> is_space c"
    with set_strip [of s] assms show ?thesis by auto
  next
    assume "c = CHR '' ''"
    then show ?thesis by (simp add: not_control_blank)
  qed
qed

lemma stable_text_no_control:
  assumes "\<forall>c \<in> set s. is_control c \<longrightarrow> is_space c"
  shows "filter (\<lambda>x. \<not> is_control x) (collapse_ws (strip s)) = collapse_ws (strip s)"
  using collapsed_not_control [OF assms] by simp

text \<open>On a stable cell the cleaning of a cell (indicator replacement, then text cleaning) is idempotent.\<close>

lemma clean_cell_twice:
  assumes "stable_cell c"
  shows "clean_text_field (replace_missing (clean_text_field (replace_missing c)))
         = clean_text_field (replace_missing c)"
proof (cases c)
  case Missing
  then show ?thesis by (simp add: replace_missing_def clean_text_field_def)
next
  case (Text s)
  show ?thesis
  proof (cases "s \<in> set missing_indicators")
    case True
    with Text show ?thesis by (simp add: replace_missing_def clean_text_field_def)
  next
    case False
    with assms Text have st: "stable_text s" by (simp add: stable_cell_def)
    let ?t = "collapse_ws (strip s)"
    from st have nc: "\<forall>c \<in> set s. is_control c \<longrightarrow> is_space c" and ni: "?t \<notin> set missing_indicators"
      by (simp_all add: stable_text_def)
    have one: "clean_text_field (replace_missing c) = Text ?t"
      using Text False stable_text_no_control [OF nc]
      by (simp add: replace_missing_def clean_text_field_def)
    have "filter (\<lambda>x. \<not> is_control x) (collapse_ws (strip ?t)) = collapse_ws (strip ?t)"
      using collapsed_not_control [OF nc] by (intro stable_text_no_control) blast
    then have "clean_text_field (replace_missing (Text ?t)) = Text ?t"
      using ni trimmed_collapse_fixed [of s]
      by (simp add: replace_missing_def clean_text_field_def)
    with one show ?thesis by simp
  qed
qed


subsection \<open>Duplicates, sample identifiers and idempotence\<close>

lemma lower_letters_fixed: "c \<in> set lower_letters \<Longrightarrow> lower_char c = c"
proof -
  assume "c \<in> set lower_letters"
  then have "c \<notin> set upper_letters"
    by (auto simp: lower_letters_def upper_letters_def)
  moreover have "fst ` set (zip upper_letters lower_letters) = set upper_letters"
    by (simp add: upper_letters_def lower_letters_def)
  ultimately have "map_of (zip upper_letters lower_letters) c = None"
    by (simp only: map_of_eq_None_iff not_False_eq_True)
  then show ?thesis by (simp add: lower_char_def)
qed

lemma lower_char_range: "lower_char c = c \<or> lower_char c \<in> set lower_letters"
proof (cases "map_of (zip upper_letters lower_letters) c")
  case None
  then show ?thesis by (simp add: lower_char_def)
next
  case (Some l)
  then have "(c, l) \<in> set (zip upper_letters lower_letters)" by (rule map_of_SomeD)
  then have "l \<in> set lower_letters" by (rule set_zip_rightD)
  with Some show ?thesis by (simp add: lower_char_def)
qed

lemma standardize_char_twice:
  "standardize_name (standardize_name [c]) = standardize_name [c]"
proof -
  have fixed: "standardize_name [x] = [x]"
    if "lower_char x = x" and "x \<noteq> CHR '' ''" and "x \<noteq> CHR ''-''" for x
    using that by (simp add: standardize_name_def replace_char_def lower_def)
  have under: "standardize_name [CHR ''_''] = [CHR ''_'']"
    by (rule fixed) (simp_all add: lower_letters_fixed lower_char_def upper_letters_def lower_letters_def)
  from lower_char_range [of c] show ?thesis
  proof
    assume id: "lower_char c = c"
    show ?thesis
    proof (cases "c = CHR '' '' \<or> c = CHR ''-''")
      case True
      with id have "standardize_name [c] = [CHR ''_'']"
        by (auto simp: standardize_name_def replace_char_def lower_def)
      with under show ?thesis by simp
    next
      case False
      with id have "standardize_name [c] = [c]" by (intro fixed) simp_all
      then show ?thesis by simp
    qed
  next
    assume l: "lower_char c \<in> set lower_letters"
    then have "lower_char c \<noteq> CHR '' ''" and "lower_char c \<noteq> CHR ''-''"
      by (auto simp: lower_letters_def)
    then have "standardize_name [c] = [lower_char c]"
      by (simp add: standardize_name_def replace_char_def lower_def)
    moreover have "standardize_name [lower_char c] = [lower_char c]"
      using l \<open>lower_char c \<noteq> CHR '' ''\<close> \<open>lower_char c \<noteq> CHR ''-''\<close>
      by (intro fixed lower_letters_fixed)
    ultimately show ?thesis by simp
  qed
qed

lemma standardize_name_idem: "standardize_name (standardize_name n) = standardize_name n"
proof (induction n)
  case Nil
  show ?case by (simp add: standardize_name_def replace_char_def lower_def)
next
  case (Cons c n)
  have split: "standardize_name (x # xs) = standardize_name [x] @ standardize_name xs" for x xs
    by (simp add: standardize_name_def replace_char_def lower_def)
  have app: "standardize_name (xs @ ys) = standardize_name xs @ standardize_name ys" for xs ys
    by (simp add: standardize_name_def replace_char_def lower_def)
  from Cons standardize_char_twice [of c] show ?case by (simp add: split [of c n] app)
qed


lemma guarded_fold_columns:
  "columns (fold (\<lambda>j d. if dtype_object (column d j) then map_column f j d else d) js df) = columns df"
  by (induction js arbitrary: df) simp_all

lemma clean_metadata_columns:
  assumes "clean_metadata T = Inr T'"
  shows "columns T' = map standardize_name (columns T)"
  using assms
  by (auto simp: clean_metadata_def handle_missing_values_def Let_def guarded_fold_columns
      drop_duplicates_def dropna_all_def split: if_splits)

lemma clean_metadata_distinct_rows:
  assumes "clean_metadata T = Inr T'"
  shows "distinct (rows T')"
  using assms
  by (auto simp: clean_metadata_def Let_def drop_duplicates_def split: sum.splits)

lemma remdups_snoc: "remdups (ys @ [x]) = remdups (filter (\<lambda>y. y \<noteq> x) ys) @ [x]"
  by (induction ys) auto

lemma keep_first_Cons:
  "rev (remdups (rev (x # xs))) = x # rev (remdups (rev (filter (\<lambda>y. y \<noteq> x) xs)))"
  by (simp add: remdups_snoc rev_filter)

lemma keep_first_is_first_occurrences: "rev (remdups (rev xs)) = first_occurrences xs"
proof (induction xs rule: first_occurrences.induct)
  case 1
  show ?case by simp
next
  case (2 x xs)
  then show ?case by (simp only: keep_first_Cons first_occurrences.simps)
qed

text \<open>
  Claim C1, as the code has it. Cleaning never looks at \<open>sample_id\<close>. The rows of the result
  are the cleaned rows that are not missing throughout, each once, at the place of its first
  occurrence: of rows equal in every column only the first is kept, no other row is lost,
  and the rows of the result are pairwise different. The columns keep their order under
  their standardized labels, so \<open>sample_id\<close> is a column of the result exactly when a label
  of the input standardizes to it.
\<close>

theorem clean_metadata_keeps_first_rows:
  assumes "rectangular T" and "clean_metadata T = Inr T'"
  shows "rows T' = first_occurrences (cleaned_rows T) \<and>
         distinct (rows T') \<and>
         set (rows T') = set (cleaned_rows T) \<and>
         columns T' = map standardize_name (columns T) \<and>
         (''sample_id'' \<in> set (columns T') \<longleftrightarrow>
            (\<exists>name \<in> set (columns T). standardize_name name = ''sample_id''))"
proof -
  from assms have "T' = \<lparr>columns = map standardize_name (columns T),
                rows = rev (remdups (rev (filter (list_ex (\<lambda>c. c \<noteq> Missing))
                         (map (map (\<lambda>c. clean_text_field (replace_missing c))) (rows T)))))\<rparr>"
    by (simp add: clean_metadata_cells split: if_splits)
  then have r: "rows T' = rev (remdups (rev (cleaned_rows T)))"
    by (simp add: cleaned_rows_def clean_cell_def [abs_def])
  then have first: "rows T' = first_occurrences (cleaned_rows T)"
    by (simp only: keep_first_is_first_occurrences)
  from r have same: "set (rows T') = set (cleaned_rows T)" by simp
  have c: "columns T' = map standardize_name (columns T)"
    by (rule clean_metadata_columns [OF assms(2)])
  have "x \<in> set (map standardize_name (columns T)) \<longleftrightarrow>
      (\<exists>name \<in> set (columns T). standardize_name name = x)" for x
    by (simp only: set_map image_iff) blast
  with c have "''sample_id'' \<in> set (columns T') \<longleftrightarrow>
      (\<exists>name \<in> set (columns T). standardize_name name = ''sample_id'')"
    by (simp only:)
  with first same c clean_metadata_distinct_rows [OF assms(2)] show ?thesis by blast
qed

lemma clean_dup_sample:
  "clean_metadata \<lparr>columns = [''sample_id'', ''title''],
       rows = [[Text ''GSM1'', Text ''A''], [Text ''GSM1'', Text ''B'']]\<rparr>
   = Inr \<lparr>columns = [''sample_id'', ''title''],
       rows = [[Text ''GSM1'', Text ''A''], [Text ''GSM1'', Text ''B'']]\<rparr>"
  by code_simp

lemma clean_no_sample_id:
  "clean_metadata \<lparr>columns = [''title''], rows = [[Text ''A'']]\<rparr>
   = Inr \<lparr>columns = [''title''], rows = [[Text ''A'']]\<rparr>"
  by code_simp

text \<open>
  Claim C1 as stated fails: two rows with the same \<open>sample_id\<close> and different titles are
  both kept, and a table without a \<open>sample_id\<close> column is cleaned without getting one.
\<close>

theorem clean_metadata_sample_id_counterexample:
  "clean_metadata \<lparr>columns = [''sample_id'', ''title''],
       rows = [[Text ''GSM1'', Text ''A''], [Text ''GSM1'', Text ''B'']]\<rparr>
   = Inr \<lparr>columns = [''sample_id'', ''title''],
       rows = [[Text ''GSM1'', Text ''A''], [Text ''GSM1'', Text ''B'']]\<rparr> \<and>
   column_named \<lparr>columns = [''sample_id'', ''title''],
       rows = [[Text ''GSM1'', Text ''A''], [Text ''GSM1'', Text ''B'']]\<rparr> ''sample_id''
   = Some [Text ''GSM1'', Text ''GSM1''] \<and>
   \<not> distinct [Text ''GSM1'', Text ''GSM1''] \<and>
   clean_metadata \<lparr>columns = [''title''], rows = [[Text ''A'']]\<rparr>
   = Inr \<lparr>columns = [''title''], rows = [[Text ''A'']]\<rparr> \<and>
   column_named \<lparr>columns = [''title''], rows = [[Text ''A'']]\<rparr> ''sample_id'' = None"
proof -
  have "column_named \<lparr>columns = [''sample_id'', ''title''],
       rows = [[Text ''GSM1'', Text ''A''], [Text ''GSM1'', Text ''B'']]\<rparr> ''sample_id''
     = Some [Text ''GSM1'', Text ''GSM1'']"
    by (simp add: column_named_def column_def)
  moreover have "column_named \<lparr>columns = [''title''], rows = [[Text ''A'']]\<rparr> ''sample_id'' = None"
    by (simp add: column_named_def)
  ultimately show ?thesis using clean_dup_sample clean_no_sample_id by simp
qed

lemma clean_repeated_row:
  "clean_metadata \<lparr>columns = [''Sample ID'', ''Title''],
       rows = [[Text ''GSM1'', Text ''A''], [Text ''GSM2'', Text '' B''], [Text ''GSM1'', Text ''A ''],
               [Text ''NA'', Text ''-'']]\<rparr>
   = Inr \<lparr>columns = [''sample_id'', ''title''],
       rows = [[Text ''GSM1'', Text ''A''], [Text ''GSM2'', Text ''B'']]\<rparr>"
  by code_simp

lemma cleaned_rows_repeated:
  "cleaned_rows \<lparr>columns = [''Sample ID'', ''Title''],
       rows = [[Text ''GSM1'', Text ''A''], [Text ''GSM2'', Text '' B''], [Text ''GSM1'', Text ''A ''],
               [Text ''NA'', Text ''-'']]\<rparr>
   = [[Text ''GSM1'', Text ''A''], [Text ''GSM2'', Text ''B''], [Text ''GSM1'', Text ''A'']]"
  by code_simp

text \<open>
  The amended claim C1 at a table in which the first row comes again after another row,
  with untrimmed text, and a row of missing-value indicators: the later copy and the
  missing row are gone, the first two rows stay in their order.
\<close>

theorem clean_metadata_keeps_first_rows_witness:
  "rectangular \<lparr>columns = [''Sample ID'', ''Title''],
       rows = [[Text ''GSM1'', Text ''A''], [Text ''GSM2'', Text '' B''], [Text ''GSM1'', Text ''A ''],
               [Text ''NA'', Text ''-'']]\<rparr> \<and>
   clean_metadata \<lparr>columns = [''Sample ID'', ''Title''],
       rows = [[Text ''GSM1'', Text ''A''], [Text ''GSM2'', Text '' B''], [Text ''GSM1'', Text ''A ''],
               [Text ''NA'', Text ''-'']]\<rparr>
   = Inr \<lparr>columns = [''sample_id'', ''title''],
       rows = [[Text ''GSM1'', Text ''A''], [Text ''GSM2'', Text ''B'']]\<rparr> \<and>
   first_occurrences [[Text ''GSM1'', Text ''A''], [Text ''GSM2'', Text ''B''], [Text ''GSM1'', Text ''A'']]
   = [[Text ''GSM1'', Text ''A''], [Text ''GSM2'', Text ''B'']] \<and>
   ''sample_id'' \<in> set [''sample_id'', ''title'']"
proof -
  let ?T = "\<lparr>columns = [''Sample ID'', ''Title''],
       rows = [[Text ''GSM1'', Text ''A''], [Text ''GSM2'', Text '' B''], [Text ''GSM1'', Text ''A ''],
               [Text ''NA'', Text ''-'']]\<rparr>"
  have r: "rectangular ?T" by (simp add: rectangular_def)
  from clean_metadata_keeps_first_rows [OF r clean_repeated_row]
  have "[[Text ''GSM1'', Text ''A''], [Text ''GSM2'', Text ''B'']] = first_occurrences (cleaned_rows ?T)"
    by simp
  then have "first_occurrences [[Text ''GSM1'', Text ''A''], [Text ''GSM2'', Text ''B''], [Text ''GSM1'', Text ''A'']]
   = [[Text ''GSM1'', Text ''A''], [Text ''GSM2'', Text ''B'']]"
    by (simp only: cleaned_rows_repeated)
  with r clean_repeated_row show ?thesis by simp
qed


lemma rectangular_cleaned:
  assumes "rectangular T" and "clean_metadata T = Inr T'"
  shows "rectangular T'"
proof -
  from assms have "T' = \<lparr>columns = map standardize_name (columns T),
                rows = rev (remdups (rev (filter (list_ex (\<lambda>c. c \<noteq> Missing))
                         (map (map (\<lambda>c. clean_text_field (replace_missing c))) (rows T)))))\<rparr>"
    by (simp add: clean_metadata_cells split: if_splits)
  with assms(1) show ?thesis by (auto simp: rectangular_def)
qed

text \<open>
  Claim C2, as the code has it. Cleaning a cleaned table changes nothing when the table is
  stable: every text that is not itself a missing-value indicator has no control character
  other than whitespace and is not turned into an indicator by trimming and collapsing its
  whitespace.
\<close>

theorem clean_metadata_idempotent_stable:
  assumes rect: "rectangular T" and stable: "stable_cells T" and c: "clean_metadata T = Inr T'"
  shows "clean_metadata T' = Inr T'"
proof -
  let ?g = "\<lambda>c. clean_text_field (replace_missing c)"
  let ?keep = "list_ex (\<lambda>c. c \<noteq> Missing)"
  let ?names = "map standardize_name (columns T)"
  define R where "R = rev (remdups (rev (filter ?keep (map (map ?g) (rows T)))))"
  from rect c have d: "distinct ?names" and T': "T' = \<lparr>columns = ?names, rows = R\<rparr>"
    by (simp_all add: clean_metadata_cells R_def split: if_splits)
  have rect': "rectangular T'" by (rule rectangular_cleaned [OF rect c])
  have names: "map standardize_name ?names = ?names"
    by (simp add: standardize_name_idem)
  have sub: "set R \<subseteq> set (filter ?keep (map (map ?g) (rows T)))"
    by (simp add: R_def)
  have cells: "map (map ?g) R = R"
  proof (rule map_idI)
    fix r assume "r \<in> set R"
    with sub obtain r0 where r0: "r0 \<in> set (rows T)" and r: "r = map ?g r0" by auto
    have "map ?g (map ?g r0) = map ?g r0"
    proof (simp, rule ballI)
      fix c0 assume "c0 \<in> set r0"
      with r0 stable have "stable_cell c0" by (auto simp: stable_cells_def)
      then show "?g (?g c0) = ?g c0" by (rule clean_cell_twice)
    qed
    with r show "map ?g r = r" by simp
  qed
  have keep: "filter ?keep R = R"
    using sub by (auto simp: filter_id_conv)
  have dist: "distinct R" by (simp add: R_def)
  then have "distinct (rev R)" by simp
  then have "remdups (rev R) = rev R" by (rule distinct_remdups_id)
  then have dd: "rev (remdups (rev R)) = R" by (simp only: rev_rev_ident)
  have cols': "columns T' = ?names" and rows': "rows T' = R" by (simp_all add: T')
  have d': "distinct (map standardize_name (columns T'))"
    unfolding cols' names by (rule d)
  have "clean_metadata T' = Inr \<lparr>columns = map standardize_name (columns T'),
       rows = rev (remdups (rev (filter ?keep (map (map ?g) (rows T')))))\<rparr>"
    using clean_metadata_cells [OF rect'] d' by (simp only: if_True)
  also have "\<dots> = Inr \<lparr>columns = ?names, rows = R\<rparr>"
    unfolding cols' rows' names cells keep dd ..
  also have "\<dots> = Inr T'"
    by (simp only: T')
  finally show ?thesis .
qed

lemma clean_pass_one:
  "clean_metadata \<lparr>columns = [''Sample ID'', ''Title''],
       rows = [[Text ''GSM1'', Text ''  a   b  ''], [Text ''GSM2'', Text ''N/A'']]\<rparr>
   = Inr \<lparr>columns = [''sample_id'', ''title''],
       rows = [[Text ''GSM1'', Text ''a b''], [Text ''GSM2'', Missing]]\<rparr>"
  by code_simp

lemma clean_pass_one_stable:
  "stable_cells \<lparr>columns = [''Sample ID'', ''Title''],
       rows = [[Text ''GSM1'', Text ''  a   b  ''], [Text ''GSM2'', Text ''N/A'']]\<rparr>"
  by code_simp

text \<open>
  The amended claim C2 at a table with untrimmed text and an indicator.
\<close>

theorem clean_metadata_idempotent_stable_witness:
  "rectangular \<lparr>columns = [''Sample ID'', ''Title''],
       rows = [[Text ''GSM1'', Text ''  a   b  ''], [Text ''GSM2'', Text ''N/A'']]\<rparr> \<and>
   stable_cells \<lparr>columns = [''Sample ID'', ''Title''],
       rows = [[Text ''GSM1'', Text ''  a   b  ''], [Text ''GSM2'', Text ''N/A'']]\<rparr> \<and>
   clean_metadata \<lparr>columns = [''Sample ID'', ''Title''],
       rows = [[Text ''GSM1'', Text ''  a   b  ''], [Text ''GSM2'', Text ''N/A'']]\<rparr>
   = Inr \<lparr>columns = [''sample_id'', ''title''],
       rows = [[Text ''GSM1'', Text ''a b''], [Text ''GSM2'', Missing]]\<rparr> \<and>
   clean_metadata \<lparr>columns = [''sample_id'', ''title''],
       rows = [[Text ''GSM1'', Text ''a b''], [Text ''GSM2'', Missing]]\<rparr>
   = Inr \<lparr>columns = [''sample_id'', ''title''],
       rows = [[Text ''GSM1'', Text ''a b''], [Text ''GSM2'', Missing]]\<rparr>"
proof -
  have r: "rectangular \<lparr>columns = [''Sample ID'', ''Title''],
       rows = [[Text ''GSM1'', Text ''  a   b  ''], [Text ''GSM2'', Text ''N/A'']]\<rparr>"
    by (simp add: rectangular_def)
  from clean_metadata_idempotent_stable [OF r clean_pass_one_stable clean_pass_one]
    r clean_pass_one_stable clean_pass_one
  show ?thesis by (intro conjI)
qed

lemma clean_once_trailing:
  "clean_metadata \<lparr>columns = [''sample_id'', ''title''], rows = [[Text ''GSM1'', Text ''NA '']]\<rparr>
   = Inr \<lparr>columns = [''sample_id'', ''title''], rows = [[Text ''GSM1'', Text ''NA'']]\<rparr>"
  by code_simp

lemma clean_twice_trailing:
  "clean_metadata \<lparr>columns = [''sample_id'', ''title''], rows = [[Text ''GSM1'', Text ''NA'']]\<rparr>
   = Inr \<lparr>columns = [''sample_id'', ''title''], rows = [[Text ''GSM1'', Missing]]\<rparr>"
  by code_simp

text \<open>
  Claim C2 as stated fails: \<open>NA\<close> followed by a blank is no indicator, so the first cleaning
  only trims it; the second cleaning finds the indicator \<open>NA\<close> and replaces it by the missing
  marker.
\<close>

theorem clean_metadata_idempotent_counterexample:
  "clean_metadata \<lparr>columns = [''sample_id'', ''title''], rows = [[Text ''GSM1'', Text ''NA '']]\<rparr>
   = Inr \<lparr>columns = [''sample_id'', ''title''], rows = [[Text ''GSM1'', Text ''NA'']]\<rparr> \<and>
   clean_metadata \<lparr>columns = [''sample_id'', ''title''], rows = [[Text ''GSM1'', Text ''NA'']]\<rparr>
   = Inr \<lparr>columns = [''sample_id'', ''title''], rows = [[Text ''GSM1'', Missing]]\<rparr> \<and>
   \<lparr>columns = [''sample_id'', ''title''], rows = [[Text ''GSM1'', Missing]]\<rparr>
   \<noteq> \<lparr>columns = [''sample_id'', ''title''], rows = [[Text ''GSM1'', Text ''NA'']]\<rparr>"
  using clean_once_trailing clean_twice_trailing by simp


section \<open>Properties of file parsing\<close>

lemma parse_soft_two_samples_value:
  "parse_soft_file
     (join [CHR 0x0A]
        [''^SAMPLE = GSM1'', ''!Sample_title = A'', ''^SAMPLE = GSM2'', ''!Sample_title = B''])
   = Inr (\<lparr>columns = [''sample_id'', ''title ''],
            rows = [[Text ''GSM1'', Text ''A''], [Text ''GSM2'', Text ''B'']]\<rparr>, None)"
  by code_simp

text \<open>
  Claim C5 on the code. The two-sample file gives two records with the sample ids \<open>GSM1\<close> and
  \<open>GSM2\<close>, the values \<open>A\<close> and \<open>B\<close>, and no expression data. The values are not filed under
  \<open>title\<close>, though: the key is the text before the equals sign without the prefix, and that
  text ends with the blank that precedes the equals sign. The value and the sample id are
  trimmed, the key is not.
\<close>

theorem parse_soft_two_samples:
  "parse_soft_file
     (join [CHR 0x0A]
        [''^SAMPLE = GSM1'', ''!Sample_title = A'', ''^SAMPLE = GSM2'', ''!Sample_title = B''])
   = Inr (\<lparr>columns = [''sample_id'', ''title ''],
            rows = [[Text ''GSM1'', Text ''A''], [Text ''GSM2'', Text ''B'']]\<rparr>, None) \<and>
   column_named \<lparr>columns = [''sample_id'', ''title ''],
       rows = [[Text ''GSM1'', Text ''A''], [Text ''GSM2'', Text ''B'']]\<rparr> ''sample_id''
     = Some [Text ''GSM1'', Text ''GSM2''] \<and>
   column_named \<lparr>columns = [''sample_id'', ''title ''],
       rows = [[Text ''GSM1'', Text ''A''], [Text ''GSM2'', Text ''B'']]\<rparr> ''title ''
     = Some [Text ''A'', Text ''B''] \<and>
   column_named \<lparr>columns = [''sample_id'', ''title ''],
       rows = [[Text ''GSM1'', Text ''A''], [Text ''GSM2'', Text ''B'']]\<rparr> ''title'' = None"
  using parse_soft_two_samples_value by (simp add: column_named_def column_def)

text \<open>
  The second part of claim C5: a sample marker line puts the record in progress, if there
  is one, on the list and starts a new record with the trimmed text between the first equals
  sign and the next as its \<open>sample_id\<close>.
\<close>

lemma soft_sample_marker:
  assumes "startswith (strip raw) ''^SAMPLE''"
    and "split_on CHR ''='' (strip raw) = before_eq # ident # others"
  shows "soft_lines st (raw # lines) =
     soft_lines
       \<lparr>metadata_list =
          (if current_sample st \<noteq> [] then metadata_list st @ [current_sample st]
           else metadata_list st),
        current_sample = [(''sample_id'', strip ident)],
        in_sample_section = True\<rparr> lines"
  using assms by (simp add: Let_def)

lemma probe_header_is_expression:
  "''sample_id'' \<notin> set (map lower [''ProbeID'', ''S1'', ''S2'']) \<and>
   \<not> list_ex (\<lambda>col. contains ''gsm'' (lower col)) [''ProbeID'', ''S1'', ''S2'']"
  by code_simp

lemma probe_records:
  "frame_of_records
     [[(''sample_id'', ''S1''), (''source'', ''uploaded_file'')],
      [(''sample_id'', ''S2''), (''source'', ''uploaded_file'')]]
   = \<lparr>columns = [''sample_id'', ''source''],
      rows = [[Text ''S1'', Text ''uploaded_file''], [Text ''S2'', Text ''uploaded_file'']]\<rparr>"
  by code_simp

text \<open>
  Claim C6. A tab-delimited table with the header \<open>ProbeID\<close>, \<open>S1\<close>, \<open>S2\<close> and two data rows,
  whatever their cells, is an expression matrix: the result is the table of the columns
  \<open>S1\<close> and \<open>S2\<close> indexed by the \<open>ProbeID\<close> column, with a metadata table of two records, one
  per sample column, with \<open>source\<close> \<open>uploaded_file\<close>.
\<close>

theorem parse_txt_probe_matrix:
  "parse_txt_file
     (Inr \<lparr>columns = [''ProbeID'', ''S1'', ''S2''], rows = [[p1, a1, b1], [p2, a2, b2]]\<rparr>)
   = Inr (\<lparr>columns = [''sample_id'', ''source''],
            rows = [[Text ''S1'', Text ''uploaded_file''], [Text ''S2'', Text ''uploaded_file'']]\<rparr>,
          Some (Indexed ''ProbeID'' [p1, p2]
                  \<lparr>columns = [''S1'', ''S2''], rows = [[a1, b1], [a2, b2]]\<rparr>))"
proof -
  have idx: "set_index ''ProbeID''
       \<lparr>columns = [''ProbeID'', ''S1'', ''S2''], rows = [[p1, a1, b1], [p2, a2, b2]]\<rparr>
     = Inr (Indexed ''ProbeID'' [p1, p2] \<lparr>columns = [''S1'', ''S2''], rows = [[a1, b1], [a2, b2]]\<rparr>)"
    by (simp add: set_index_def column_def remove_nth_def)
  have cols: "filter (\<lambda>col. col \<noteq> ''ProbeID'') [''ProbeID'', ''S1'', ''S2''] = [''S1'', ''S2'']"
    by simp
  have cond: "(''sample_id'' \<in> set (map lower [''ProbeID'', ''S1'', ''S2''])
       \<or> list_ex (\<lambda>col. contains ''gsm'' (lower col)) [''ProbeID'', ''S1'', ''S2'']) = False"
    using probe_header_is_expression by blast
  have recs: "map (\<lambda>col. [(''sample_id'', col), (''source'', ''uploaded_file'')]) [''S1'', ''S2'']
     = [[(''sample_id'', ''S1''), (''source'', ''uploaded_file'')],
        [(''sample_id'', ''S2''), (''source'', ''uploaded_file'')]]"
    by simp
  show ?thesis
    unfolding parse_txt_file_def
    by (simp only: sum.case table.simps cond if_False list.case Let_def cols recs idx probe_records)
qed



section \<open>Properties of the missing-data report\<close>

lemma count_by_position:
  "(\<Sum>j\<leftarrow>[0..<length r]. if P (r ! j) then 1 else 0) = length (filter P r)"
proof -
  have "(\<Sum>j\<leftarrow>[0..<length r]. if P (r ! j) then 1 else 0)
        = (\<Sum>x\<leftarrow>map (\<lambda>j. r ! j) [0..<length r]. if P x then 1 else (0::nat))"
    by (simp add: comp_def)
  also have "map (\<lambda>j. r ! j) [0..<length r] = r" by (rule map_nth)
  also have "(\<Sum>x\<leftarrow>r. if P x then 1 else (0::nat)) = length (filter P r)"
    by (induction r) simp_all
  finally show ?thesis .
qed

lemma column_counts:
  "\<forall>r \<in> set rs. length r = n \<Longrightarrow>
   (\<Sum>j\<leftarrow>[0..<n]. length (filter P (map (\<lambda>r. r ! j) rs))) = (\<Sum>r\<leftarrow>rs. length (filter P r))"
proof (induction rs)
  case Nil
  then show ?case by simp
next
  case (Cons r rs)
  then have n: "length r = n" by simp
  have "(\<Sum>j\<leftarrow>[0..<n]. length (filter P (map (\<lambda>r. r ! j) (r # rs))))
        = (\<Sum>j\<leftarrow>[0..<n]. (if P (r ! j) then 1 else 0) + length (filter P (map (\<lambda>r. r ! j) rs)))"
    by (rule arg_cong [where f = sum_list]) simp
  also have "\<dots> = (\<Sum>j\<leftarrow>[0..<n]. if P (r ! j) then 1 else 0)
                   + (\<Sum>j\<leftarrow>[0..<n]. length (filter P (map (\<lambda>r. r ! j) rs)))"
    by (rule sum_list_addf)
  also have "(\<Sum>j\<leftarrow>[0..<n]. if P (r ! j) then 1 else 0) = length (filter P r)"
    using count_by_position [of P r] n by simp
  also have "(\<Sum>j\<leftarrow>[0..<n]. length (filter P (map (\<lambda>r. r ! j) rs))) = (\<Sum>r\<leftarrow>rs. length (filter P r))"
    using Cons by simp
  finally show ?case by simp
qed

lemma isnull_sum_total:
  assumes "rectangular df"
  shows "sum_list (map snd (isnull_sum df)) = count_missing df"
  using column_counts [of "rows df" "length (columns df)" isnull] assms
  by (simp add: isnull_sum_def count_missing_def column_def rectangular_def comp_def)

lemma empty_frame_counts:
  assumes "rectangular df" and "empty_frame df"
  shows "cells_of df = 0" and "count_missing df = 0"
proof -
  from assms(2) show "cells_of df = 0" by (auto simp: cells_of_def empty_frame_def)
  from assms have "\<forall>r \<in> set (rows df). r = []"
    by (auto simp: empty_frame_def rectangular_def)
  then have "map (\<lambda>r. length (filter isnull r)) (rows df) = map (\<lambda>r. 0) (rows df)"
    by (intro map_cong) auto
  then show "count_missing df = 0" by (simp add: count_missing_def)
qed

lemma nonempty_frame_cells: "\<not> empty_frame df \<Longrightarrow> 0 < cells_of df"
  by (simp add: cells_of_def empty_frame_def)

lemma section_of_totals:
  assumes "rectangular df"
  shows "total_cells (section_of df limit) = cells_of df"
    and "missing_cells (section_of df limit) = count_missing df"
    and "missing_percentage (section_of df limit) = percentage (count_missing df) (cells_of df)"
  by (simp_all add: section_of_def Let_def cells_of_def isnull_sum_total [OF assms])

text \<open>The three parts of the report that the totals decide, for rectangular tables.\<close>

lemma report_metadata_section:
  "metadata_missing (generate_missing_data_report md e) =
     (if empty_frame md then None else Some (section_of md None))"
  by (simp add: generate_missing_data_report_def Let_def split: option.splits)

lemma report_expression_section:
  "expression_missing (generate_missing_data_report md e) =
     (case e of None \<Rightarrow> None
      | Some f \<Rightarrow> if empty_frame (frame_table f) then None else Some (section_of (frame_table f) (Some 20)))"
  by (simp add: generate_missing_data_report_def Let_def split: option.splits)

lemma report_total_missing:
  "total_missing (generate_missing_data_report md e) =
     (if empty_frame md then 0 else missing_cells (section_of md None))
     + (case e of None \<Rightarrow> 0
        | Some f \<Rightarrow> if empty_frame (frame_table f) then 0
                    else missing_cells (section_of (frame_table f) (Some 20)))"
  by (simp add: generate_missing_data_report_def Let_def split: option.splits)

lemma report_completion_rate:
  "completion_rate (generate_missing_data_report md e) =
     (let cells = (case metadata_missing (generate_missing_data_report md e) of
                     None \<Rightarrow> 0 | Some s \<Rightarrow> total_cells s)
                  + (case expression_missing (generate_missing_data_report md e) of
                       None \<Rightarrow> 0 | Some s \<Rightarrow> total_cells s)
      in if cells > 0
         then times_100 (true_divide
                 (int cells - int (total_missing (generate_missing_data_report md e))) (int cells))
         else 0)"
  by (simp add: generate_missing_data_report_def Let_def split: option.splits)

lemma report_cells:
  assumes "rectangular_frames md e"
  shows "(case metadata_missing (generate_missing_data_report md e) of
            None \<Rightarrow> 0 | Some s \<Rightarrow> total_cells s)
         + (case expression_missing (generate_missing_data_report md e) of
              None \<Rightarrow> 0 | Some s \<Rightarrow> total_cells s)
         = combined_cells md e"
proof -
  from assms have r: "rectangular md" by (simp add: rectangular_frames_def)
  have m: "(case metadata_missing (generate_missing_data_report md e) of
            None \<Rightarrow> 0 | Some s \<Rightarrow> total_cells s) = cells_of md"
    using empty_frame_counts(1) [OF r] section_of_totals(1) [OF r]
    by (simp add: report_metadata_section)
  have x: "(case expression_missing (generate_missing_data_report md e) of
              None \<Rightarrow> 0 | Some s \<Rightarrow> total_cells s)
           = (case e of None \<Rightarrow> 0 | Some f \<Rightarrow> cells_of (frame_table f))"
  proof (cases e)
    case None
    then show ?thesis by (simp add: report_expression_section)
  next
    case (Some f)
    with assms have rf: "rectangular (frame_table f)" by (simp add: rectangular_frames_def)
    show ?thesis
      using Some empty_frame_counts(1) [OF rf] section_of_totals(1) [OF rf]
      by (simp add: report_expression_section)
  qed
  show ?thesis unfolding m x by (simp add: combined_cells_def)
qed

lemma report_missing:
  assumes "rectangular_frames md e"
  shows "total_missing (generate_missing_data_report md e) = combined_missing md e"
proof -
  from assms have r: "rectangular md" by (simp add: rectangular_frames_def)
  have m: "(if empty_frame md then 0 else missing_cells (section_of md None)) = count_missing md"
    using empty_frame_counts(2) [OF r] section_of_totals(2) [OF r] by simp
  have x: "(case e of None \<Rightarrow> 0
        | Some f \<Rightarrow> if empty_frame (frame_table f) then 0
                    else missing_cells (section_of (frame_table f) (Some 20)))
           = (case e of None \<Rightarrow> 0 | Some f \<Rightarrow> count_missing (frame_table f))"
  proof (cases e)
    case None
    then show ?thesis by simp
  next
    case (Some f)
    with assms have rf: "rectangular (frame_table f)" by (simp add: rectangular_frames_def)
    show ?thesis
      using Some empty_frame_counts(2) [OF rf] section_of_totals(2) [OF rf] by simp
  qed
  show ?thesis unfolding report_total_missing m x by (simp add: combined_missing_def)
qed

text \<open>
  Claim C7, as the code has it. For a metadata table with cells, the missing percentage of
  the report is the number of missing cells over the number of cells, times 100; for a
  table without cells the report has no metadata section. The completion rate is the share
  of cells of both tables that are not missing, times 100, and 0 when there is no cell.
  Quotient and product are those of binary64 numbers, each rounded to the nearest.
\<close>

theorem missing_report_rates:
  assumes "rectangular_frames md e"
  shows "metadata_missing_percentage (generate_missing_data_report md e) =
           (if cells_of md = 0 then Inl KeyError
            else Inr (times_100 (true_divide (int (count_missing md)) (int (cells_of md))))) \<and>
         completion_rate (generate_missing_data_report md e) =
           (if combined_cells md e = 0 then 0
            else times_100 (true_divide (int (combined_cells md e) - int (combined_missing md e))
                   (int (combined_cells md e))))"
proof -
  from assms have r: "rectangular md" by (simp add: rectangular_frames_def)
  have a: "metadata_missing_percentage (generate_missing_data_report md e) =
           (if cells_of md = 0 then Inl KeyError
            else Inr (times_100 (true_divide (int (count_missing md)) (int (cells_of md)))))"
  proof (cases "empty_frame md")
    case True
    with empty_frame_counts(1) [OF r] show ?thesis
      by (simp add: metadata_missing_percentage_def report_metadata_section)
  next
    case False
    with nonempty_frame_cells [OF False] section_of_totals(3) [OF r] show ?thesis
      by (simp add: metadata_missing_percentage_def report_metadata_section percentage_def)
  qed
  have b: "completion_rate (generate_missing_data_report md e) =
           (if combined_cells md e = 0 then 0
            else times_100 (true_divide (int (combined_cells md e) - int (combined_missing md e))
                   (int (combined_cells md e))))"
    unfolding report_completion_rate report_cells [OF assms] report_missing [OF assms]
    by (simp add: Let_def)
  from a b show ?thesis by (rule conjI)
qed


text \<open>
  Claim C7 as stated fails for a table without cells: the report is filled in only for a
  non-empty table, so its metadata section stays empty and has no \<open>missing_percentage\<close> at
  all, rather than one that is 0.
\<close>

theorem missing_report_empty_counterexample:
  "cells_of \<lparr>columns = [''sample_id''], rows = []\<rparr> = 0 \<and>
   metadata_missing (generate_missing_data_report \<lparr>columns = [''sample_id''], rows = []\<rparr> None) = None \<and>
   metadata_missing_percentage
     (generate_missing_data_report \<lparr>columns = [''sample_id''], rows = []\<rparr> None) = Inl KeyError \<and>
   metadata_missing_percentage
     (generate_missing_data_report \<lparr>columns = [''sample_id''], rows = []\<rparr> None) \<noteq> Inr 0"
  by (simp add: cells_of_def metadata_missing_percentage_def report_metadata_section empty_frame_def)

text \<open>
  One of four and four of six as percentages: the first is exact, the second is the
  binary64 number that Python prints as 66.66666666666666, not the nearest to 200/3.
\<close>

lemma quarter_as_float: "times_100 (true_divide 1 4) = 25"
  by code_simp

lemma two_thirds_as_float: "times_100 (true_divide 4 6) = 2345624805922133 / 35184372088832"
  by code_simp

text \<open>
  The amended claim C7 at a metadata table with one of four cells missing and an expression
  table with one of two cells missing: 25 percent missing, and four of six cells complete.
\<close>

theorem missing_report_rates_witness:
  "rectangular_frames
     \<lparr>columns = [''sample_id'', ''organism''], rows = [[Text ''GSM1'', Missing], [Text ''GSM2'', Text ''rat'']]\<rparr>
     (Some (Plain \<lparr>columns = [''GSM1''], rows = [[Missing], [Text ''1.5'']]\<rparr>)) \<and>
   metadata_missing_percentage
     (generate_missing_data_report
        \<lparr>columns = [''sample_id'', ''organism''], rows = [[Text ''GSM1'', Missing], [Text ''GSM2'', Text ''rat'']]\<rparr>
        (Some (Plain \<lparr>columns = [''GSM1''], rows = [[Missing], [Text ''1.5'']]\<rparr>))) = Inr 25 \<and>
   completion_rate
     (generate_missing_data_report
        \<lparr>columns = [''sample_id'', ''organism''], rows = [[Text ''GSM1'', Missing], [Text ''GSM2'', Text ''rat'']]\<rparr>
        (Some (Plain \<lparr>columns = [''GSM1''], rows = [[Missing], [Text ''1.5'']]\<rparr>)))
     = 2345624805922133 / 35184372088832"
proof -
  let ?md = "\<lparr>columns = [''sample_id'', ''organism''],
               rows = [[Text ''GSM1'', Missing], [Text ''GSM2'', Text ''rat'']]\<rparr>"
  let ?e = "Some (Plain \<lparr>columns = [''GSM1''], rows = [[Missing], [Text ''1.5'']]\<rparr>)"
  have h: "rectangular_frames ?md ?e"
    by (simp add: rectangular_frames_def rectangular_def)
  have n: "int (count_missing ?md) = 1" "int (cells_of ?md) = 4" "cells_of ?md \<noteq> 0"
    "int (combined_missing ?md ?e) = 2"
    "int (combined_cells ?md ?e) = 6" "combined_cells ?md ?e \<noteq> 0"
    by (simp_all add: combined_cells_def combined_missing_def cells_of_def count_missing_def
        isnull_def)
  from missing_report_rates [OF h] have
    "metadata_missing_percentage (generate_missing_data_report ?md ?e)
       = Inr (times_100 (true_divide 1 4)) \<and>
     completion_rate (generate_missing_data_report ?md ?e) = times_100 (true_divide 4 6)"
    by (simp add: n)
  with h show ?thesis by (simp only: quarter_as_float two_thirds_as_float)
qed

text \<open>
  Claim C8. The first recommendation is decided by the completion rate alone, each
  threshold included: at least 95 excellent, at least 85 good, at least 70 moderate, poor
  below; so 96 gives the excellent message and 60 the poor one.
\<close>

theorem recommendation_tier:
  "hd (generate_quality_recommendations r) =
     (if completion_rate r \<ge> 95 then Excellent
      else if completion_rate r \<ge> 85 then Good
      else if completion_rate r \<ge> 70 then Moderate
      else Poor) \<and>
   hd (generate_quality_recommendations (r\<lparr>completion_rate := 96\<rparr>)) = Excellent \<and>
   hd (generate_quality_recommendations (r\<lparr>completion_rate := 60\<rparr>)) = Poor \<and>
   hd (generate_quality_recommendations (r\<lparr>completion_rate := 95\<rparr>)) = Excellent \<and>
   hd (generate_quality_recommendations (r\<lparr>completion_rate := 85\<rparr>)) = Good \<and>
   hd (generate_quality_recommendations (r\<lparr>completion_rate := 70\<rparr>)) = Moderate"
  by (simp add: generate_quality_recommendations_def Let_def)

lemma dict_set_key_list: "set (map fst (dict_set k v d)) = insert k (set (map fst d))"
  by (induction k v d rule: dict_set.induct) (simp_all add: insert_commute)

lemma dict_set_keys: "fst ` set (dict_set k v d) = insert k (fst ` set d)"
  using dict_set_key_list [of k v d] by simp

lemma dict_update_keys: "fst ` set (dict_update d pairs) = fst ` set d \<union> fst ` set pairs"
  unfolding dict_update_def
  by (induction pairs arbitrary: d) (auto simp: dict_set_keys split: prod.splits)

lemma isnull_sum_keys: "map fst (isnull_sum df) = columns df"
  by (simp add: isnull_sum_def comp_def map_nth)

lemma report_missing_by_column:
  "missing_by_column (generate_missing_data_report md e) =
     (if empty_frame md then [] else dict_update [] (to_dict (isnull_sum md)))"
  by (simp add: generate_missing_data_report_def Let_def split: option.splits)

lemma report_columns_subset:
  "fst ` set (missing_by_column (generate_missing_data_report md e)) \<subseteq> set (columns md)"
proof -
  have "fst ` set (isnull_sum md) = set (columns md)"
    using isnull_sum_keys [of md] by (metis set_map)
  then show ?thesis
    by (simp add: report_missing_by_column dict_update_keys to_dict_def)
qed

lemma tail_of_recommendations:
  "tl (generate_quality_recommendations r) =
     (let high_missing_columns = map fst (filter (\<lambda>(col, count). count > 0) (missing_by_column r))
      in (if high_missing_columns \<noteq> []
          then [Columns_with_missing (take 5 high_missing_columns)]
               @ (if length high_missing_columns > 5
                  then [More_columns (length high_missing_columns - 5)] else [])
          else [])
         @ (if list_ex (\<lambda>(col, count). contains ''organism'' (lower col)) (missing_by_column r)
            then [Organism_curation] else []))"
  by (simp add: generate_quality_recommendations_def Let_def)

lemma mentioned_columns_tail:
  "mentioned_columns (generate_quality_recommendations r) =
   mentioned_columns (tl (generate_quality_recommendations r))"
  by (simp add: generate_quality_recommendations_def Let_def)

lemma mentioned_columns_of_report:
  "mentioned_columns (generate_quality_recommendations r) =
     take 5 (map fst (filter (\<lambda>(col, count). count > 0) (missing_by_column r)))"
  unfolding mentioned_columns_tail tail_of_recommendations
  by (simp add: Let_def)

text \<open>
  Claim C10. Apart from the first message, which depends on the completion rate, the
  recommendations for a report are those for the report of the metadata table alone, and
  every column they name is a column of the metadata table: the expression table, with or
  without missing values, contributes nothing to them.
\<close>

theorem recommendations_from_metadata_columns:
  "tl (generate_quality_recommendations (generate_missing_data_report md e)) =
   tl (generate_quality_recommendations (generate_missing_data_report md None)) \<and>
   set (mentioned_columns (generate_quality_recommendations (generate_missing_data_report md e)))
     \<subseteq> set (columns md)"
proof -
  have same: "missing_by_column (generate_missing_data_report md e) =
              missing_by_column (generate_missing_data_report md None)"
    by (simp add: report_missing_by_column)
  have a: "tl (generate_quality_recommendations (generate_missing_data_report md e)) =
           tl (generate_quality_recommendations (generate_missing_data_report md None))"
    unfolding tail_of_recommendations same ..
  have "set (mentioned_columns (generate_quality_recommendations (generate_missing_data_report md e)))
        \<subseteq> fst ` set (missing_by_column (generate_missing_data_report md e))"
    unfolding mentioned_columns_of_report
    by (auto dest!: in_set_takeD)
  with report_columns_subset [of md e] have b:
    "set (mentioned_columns (generate_quality_recommendations (generate_missing_data_report md e)))
       \<subseteq> set (columns md)"
    by blast
  from a b show ?thesis by (rule conjI)
qed

text \<open>
  Claim C10 at an expression table with a missing value: only the metadata column shows.
\<close>

theorem recommendations_from_metadata_columns_witness:
  "generate_quality_recommendations
     (generate_missing_data_report
        \<lparr>columns = [''sample_id'', ''organism''], rows = [[Text ''GSM1'', Missing], [Text ''GSM2'', Text ''rat'']]\<rparr>
        (Some (Plain \<lparr>columns = [''GSM1''], rows = [[Missing], [Text ''1.5'']]\<rparr>)))
   = [Poor, Columns_with_missing [''organism''], Organism_curation] \<and>
   tl (generate_quality_recommendations
     (generate_missing_data_report
        \<lparr>columns = [''sample_id'', ''organism''], rows = [[Text ''GSM1'', Missing], [Text ''GSM2'', Text ''rat'']]\<rparr>
        None))
   = [Columns_with_missing [''organism''], Organism_curation]"
proof -
  let ?md = "\<lparr>columns = [''sample_id'', ''organism''],
               rows = [[Text ''GSM1'', Missing], [Text ''GSM2'', Text ''rat'']]\<rparr>"
  let ?e = "Some (Plain \<lparr>columns = [''GSM1''], rows = [[Missing], [Text ''1.5'']]\<rparr>)"
  have v: "generate_quality_recommendations (generate_missing_data_report ?md ?e)
           = [Poor, Columns_with_missing [''organism''], Organism_curation]"
    by code_simp
  from recommendations_from_metadata_columns [of ?md ?e]
  have "tl (generate_quality_recommendations (generate_missing_data_report ?md None))
        = tl (generate_quality_recommendations (generate_missing_data_report ?md ?e))"
    by simp
  also have "\<dots> = [Columns_with_missing [''organism''], Organism_curation]"
    unfolding v by simp
  finally show ?thesis using v by simp
qed



section \<open>Properties of extraction\<close>











text \<open>
  A dataset table with two columns labelled \<open>ID_REF\<close>: the block raises nothing, the rows
  are labelled by the pairs of cells of these columns.
\<close>

lemma dataset_repeated_label:
  "gds_expression_block
     \<lparr>gds_name = ''GDS1'', gds_metadata = [], subsets = [],
      gds_table = Has \<lparr>columns = [''ID_REF'', ''ID_REF'', ''GSM1''],
                        rows = [[Text ''p1'', Text ''p1'', Text ''1.0'']]\<rparr>\<rparr>
   = (Some (Tuple_indexed ''ID_REF'' [[Text ''p1'', Text ''p1'']]
              \<lparr>columns = [''GSM1''], rows = [[Text ''1.0'']]\<rparr>), None)"
  by code_simp


end
